theory Spec2Isabelle
  imports Complex_Main "HOL-Library.Word"
begin

section \<open>Values of the platform\<close>

text \<open>
  A JavaScript string is a sequence of UTF-16 code units, modelled as a list of naturals.
  A \<^verbatim>\<open>Uint8Array\<close> is a list of 8-bit words, an \<^verbatim>\<open>Int16Array\<close> a list of 16-bit words
  read with \<open>sint\<close>, a \<^verbatim>\<open>Float32Array\<close> a list of reals. Every arithmetic step the audio
  helpers perform on a sample (a product with \<open>32768\<close>, a truncation, a quotient by
  \<open>32768\<close>) is exact on binary floating point numbers of magnitude at most \<open>1\<close>, so
  the real number is the value the program holds; \<^verbatim>\<open>NaN\<close> and the infinities are outside
  the model. The times of the playback schedule are doubles, and their sums round.
\<close>

type_synonym js_string = "nat list"
type_synonym Uint8Array = "8 word list"
type_synonym Int16Array = "16 word list"
type_synonym Float32Array = "real list"

datatype js_error =
    InvalidCharacterError
  | RangeError
  | NotSupportedError
  | TypeError
  | Error string

definition js_str :: "string \<Rightarrow> js_string" where
  "js_str cs = map of_char cs"

subsection \<open>\<^verbatim>\<open>btoa\<close> and \<^verbatim>\<open>atob\<close>\<close>

text \<open>
  The two browser functions, after the HTML standard: \<^verbatim>\<open>btoa\<close> throws on a code unit
  above \<open>255\<close> and otherwise emits the padded base64 text of RFC 4648;
  \<^verbatim>\<open>atob\<close> is the forgiving decoder: it removes ASCII whitespace, removes one or two
  trailing \<^verbatim>\<open>=\<close> when the length is a multiple of four, fails on a length that is
  \<open>1\<close> modulo \<open>4\<close> and on any character outside the alphabet, and drops the
  unused low bits of a last group of two or three characters.
\<close>

definition enc6 :: "nat \<Rightarrow> nat" where
  "enc6 n = (if n < 26 then 65 + n else if n < 52 then 71 + n
             else if n < 62 then n - 4 else if n = 62 then 43 else 47)"

definition dec6 :: "nat \<Rightarrow> nat option" where
  "dec6 c = (if 65 \<le> c \<and> c \<le> 90 then Some (c - 65)
             else if 97 \<le> c \<and> c \<le> 122 then Some (c - 71)
             else if 48 \<le> c \<and> c \<le> 57 then Some (c + 4)
             else if c = 43 then Some 62
             else if c = 47 then Some 63
             else None)"

fun b64_sextets :: "nat list \<Rightarrow> nat list" where
  "b64_sextets (a # b # c # rest) =
     [a div 4, (a mod 4) * 16 + b div 16, (b mod 16) * 4 + c div 64, c mod 64] @ b64_sextets rest"
| "b64_sextets [a, b] = [a div 4, (a mod 4) * 16 + b div 16, (b mod 16) * 4]"
| "b64_sextets [a] = [a div 4, (a mod 4) * 16]"
| "b64_sextets [] = []"

definition b64_padding :: "nat list \<Rightarrow> nat" where
  "b64_padding bs = (3 - length bs mod 3) mod 3"

definition btoa :: "js_string \<Rightarrow> js_error + js_string" where
  "btoa binary =
     (if list_ex (\<lambda>c. 255 < c) binary then Inl InvalidCharacterError
      else Inr (map enc6 (b64_sextets binary) @ replicate (b64_padding binary) 61))"

definition ascii_whitespace :: "nat \<Rightarrow> bool" where
  "ascii_whitespace c \<longleftrightarrow> c = 9 \<or> c = 10 \<or> c = 12 \<or> c = 13 \<or> c = 32"

definition strip_padding :: "nat list \<Rightarrow> nat list" where
  "strip_padding d =
     (case rev d of
        a # b # r \<Rightarrow> if a = 61 \<and> b = 61 then rev r else if a = 61 then rev (b # r) else d
      | [a] \<Rightarrow> if a = 61 then [] else d
      | [] \<Rightarrow> d)"

fun b64_bytes :: "nat list \<Rightarrow> nat list" where
  "b64_bytes (p # q # r # s # rest) =
     [p * 4 + q div 16, (q mod 16) * 16 + r div 4, (r mod 4) * 64 + s] @ b64_bytes rest"
| "b64_bytes [p, q, r] = [p * 4 + q div 16, (q mod 16) * 16 + r div 4]"
| "b64_bytes [p, q] = [p * 4 + q div 16]"
| "b64_bytes [p] = []"
| "b64_bytes [] = []"

definition atob :: "js_string \<Rightarrow> js_error + js_string" where
  "atob data =
     (let d1 = filter (\<lambda>c. \<not> ascii_whitespace c) data;
          d2 = (if length d1 mod 4 = 0 then strip_padding d1 else d1)
      in if length d2 mod 4 = 1 then Inl InvalidCharacterError
         else case those (map dec6 d2) of
                None \<Rightarrow> Inl InvalidCharacterError
              | Some sx \<Rightarrow> Inr (b64_bytes sx))"

section \<open>Double-precision numbers\<close>

text \<open>
  The times of the playback schedule are JavaScript numbers, and the schedule adds them:
  the result of an addition is the exact sum rounded to the nearest double (IEEE 754
  binary64, ties to even). Overflow to infinity is outside the model, as the infinities
  are.
\<close>

text \<open>Rounding to the nearest integer, ties to the even one.\<close>

definition round_half_even :: "real \<Rightarrow> int" where
  "round_half_even y =
     (if y - real_of_int \<lfloor>y\<rfloor> < 1 / 2 then \<lfloor>y\<rfloor>
      else if 1 / 2 < y - real_of_int \<lfloor>y\<rfloor> then \<lfloor>y\<rfloor> + 1
      else if even \<lfloor>y\<rfloor> then \<lfloor>y\<rfloor> else \<lfloor>y\<rfloor> + 1)"

text \<open>
  The exponent of the binade of a positive number, not below that of the smallest normal
  number, and the spacing of the doubles in that binade (53 bits of significand).
\<close>

definition double_exponent :: "real \<Rightarrow> int" where
  "double_exponent x = max (- 1022) \<lfloor>log 2 x\<rfloor>"

definition double_ulp :: "real \<Rightarrow> real" where
  "double_ulp x = 2 powr (real_of_int (double_exponent x) - 52)"

definition double_round :: "real \<Rightarrow> real" where
  "double_round x =
     (if x = 0 then 0
      else sgn x * (double_ulp \<bar>x\<bar> * real_of_int (round_half_even (\<bar>x\<bar> / double_ulp \<bar>x\<bar>))))"

subsection \<open>Rounding fixes the doubles and is monotone\<close>

lemma rhe_int: "round_half_even (real_of_int k) = k"
  by (simp add: round_half_even_def)

lemma rhe_bounds: "\<lfloor>y\<rfloor> \<le> round_half_even y" "round_half_even y \<le> \<lfloor>y\<rfloor> + 1"
  by (simp_all add: round_half_even_def)

lemma rhe_mono: "y1 \<le> y2 \<Longrightarrow> round_half_even y1 \<le> round_half_even y2"
proof -
  assume le: "y1 \<le> y2"
  have fl: "\<lfloor>y1\<rfloor> \<le> \<lfloor>y2\<rfloor>" using le by (rule floor_mono)
  show ?thesis
  proof (cases "\<lfloor>y1\<rfloor> = \<lfloor>y2\<rfloor>")
    case True
    then show ?thesis using le by (auto simp: round_half_even_def)
  next
    case False
    then have "\<lfloor>y1\<rfloor> + 1 \<le> \<lfloor>y2\<rfloor>" using fl by linarith
    then show ?thesis using rhe_bounds(2)[of y1] rhe_bounds(1)[of y2] by linarith
  qed
qed

lemma ulp_pos: "0 < double_ulp x"
  by (simp add: double_ulp_def)

lemma exponent_ge: "- 1022 \<le> double_exponent x"
  by (simp add: double_exponent_def)

lemma exponent_eq:
  assumes "0 < z" and "2 powr real_of_int e \<le> z" and "z < 2 powr (real_of_int e + 1)" and "- 1022 \<le> e"
  shows "double_exponent z = e"
proof -
  have "\<lfloor>log 2 z\<rfloor> = e"
    using assms(1-3) by (subst floor_log_eq_powr_iff) (simp_all add: add.commute)
  then show ?thesis using assms(4) by (simp add: double_exponent_def)
qed

lemma exponent_subnormal:
  assumes "0 < z" and "z < 2 powr (- 1022)"
  shows "double_exponent z = - 1022"
proof -
  have "log 2 z < - 1022"
    using assms by (simp add: log_less_iff)
  then have "\<lfloor>log 2 z\<rfloor> < - 1022" by linarith
  then show ?thesis by (simp add: double_exponent_def)
qed

lemma below_next_binade:
  assumes "0 < x"
  shows "x < 2 powr (real_of_int (double_exponent x) + 1)"
proof -
  have "x < 2 powr (real_of_int \<lfloor>log 2 x\<rfloor> + 1)"
    using assms floor_log_eq_powr_iff[of x 2 "\<lfloor>log 2 x\<rfloor>"] by (simp add: add.commute)
  also have "\<dots> \<le> 2 powr (real_of_int (double_exponent x) + 1)"
    by (simp add: double_exponent_def)
  finally show ?thesis .
qed

lemma above_binade:
  assumes "0 < x" and "- 1022 < double_exponent x"
  shows "2 powr real_of_int (double_exponent x) \<le> x"
proof -
  have "double_exponent x = \<lfloor>log 2 x\<rfloor>"
    using assms(2) by (simp add: double_exponent_def max_def split: if_splits)
  then show ?thesis
    using assms(1) floor_log_eq_powr_iff[of x 2 "\<lfloor>log 2 x\<rfloor>"] by simp
qed

lemma exponent_mono:
  assumes "0 < x" and "x \<le> y"
  shows "double_exponent x \<le> double_exponent y"
proof -
  have "log 2 x \<le> log 2 y" using assms by simp
  then have "\<lfloor>log 2 x\<rfloor> \<le> \<lfloor>log 2 y\<rfloor>" by (rule floor_mono)
  then show ?thesis unfolding double_exponent_def by (intro max.mono) simp_all
qed

lemma double_round_pos:
  "0 < x \<Longrightarrow> double_round x = double_ulp x * real_of_int (round_half_even (x / double_ulp x))"
  by (simp add: double_round_def)

lemma double_round_minus: "double_round (- x) = - double_round x"
  by (simp add: double_round_def sgn_minus)

lemma ulp_binade: "double_ulp x * 2 ^ 52 = 2 powr real_of_int (double_exponent x)"
proof -
  have "double_ulp x * 2 powr 52 = 2 powr (real_of_int (double_exponent x) - 52 + 52)"
    unfolding double_ulp_def by (rule powr_add[symmetric])
  then show ?thesis by simp
qed

lemma ulp_next_binade: "double_ulp x * 2 ^ 53 = 2 powr (real_of_int (double_exponent x) + 1)"
proof -
  have "double_ulp x * 2 powr 53 = 2 powr (real_of_int (double_exponent x) - 52 + 53)"
    unfolding double_ulp_def by (rule powr_add[symmetric])
  then show ?thesis by (simp add: add.commute)
qed

lemma significand_upper:
  assumes "0 < x"
  shows "round_half_even (x / double_ulp x) \<le> 2 ^ 53"
proof -
  have "x < double_ulp x * 2 ^ 53"
    using below_next_binade[OF assms] by (simp only: ulp_next_binade)
  then have "x / double_ulp x \<le> real_of_int (2 ^ 53)"
    using ulp_pos[of x] by (simp add: field_simps)
  then have "round_half_even (x / double_ulp x) \<le> round_half_even (real_of_int (2 ^ 53))"
    by (rule rhe_mono)
  then show ?thesis by (simp only: rhe_int)
qed

lemma significand_lower:
  assumes "0 < x" and "- 1022 < double_exponent x"
  shows "2 ^ 52 \<le> round_half_even (x / double_ulp x)"
proof -
  have "double_ulp x * 2 ^ 52 \<le> x"
    using above_binade[OF assms] by (simp only: ulp_binade)
  then have "real_of_int (2 ^ 52) \<le> x / double_ulp x"
    using ulp_pos[of x] by (simp add: field_simps)
  then have "round_half_even (real_of_int (2 ^ 52)) \<le> round_half_even (x / double_ulp x)"
    by (rule rhe_mono)
  then show ?thesis by (simp only: rhe_int)
qed

lemma significand_nonneg:
  assumes "0 < x"
  shows "0 \<le> round_half_even (x / double_ulp x)"
proof -
  have "0 \<le> x / double_ulp x" using assms ulp_pos[of x] by simp
  then have "0 \<le> \<lfloor>x / double_ulp x\<rfloor>" by simp
  then show ?thesis using rhe_bounds(1)[of "x / double_ulp x"] by linarith
qed

lemma double_round_nonneg: "0 \<le> x \<Longrightarrow> 0 \<le> double_round x"
proof (cases "x = 0")
  case True then show ?thesis by (simp add: double_round_def)
next
  case False
  assume "0 \<le> x"
  with False have x: "0 < x" by simp
  show ?thesis
    unfolding double_round_pos[OF x] using significand_nonneg[OF x] ulp_pos[of x] by simp
qed


lemma double_round_idem_pos:
  assumes x: "0 < x"
  shows "double_round (double_round x) = double_round x"
proof -
  define e where "e = double_exponent x"
  define u where "u = double_ulp x"
  define K where "K = round_half_even (x / u)"
  define z where "z = u * real_of_int K"
  have u: "0 < u" unfolding u_def by (rule ulp_pos)
  have zx: "double_round x = z" unfolding z_def K_def u_def by (rule double_round_pos[OF x])
  have K0: "0 \<le> K" unfolding K_def u_def by (rule significand_nonneg[OF x])
  have K53: "K \<le> 2 ^ 53" unfolding K_def u_def by (rule significand_upper[OF x])
  have b52: "u * 2 ^ 52 = 2 powr real_of_int e" unfolding u_def e_def by (rule ulp_binade)
  have b53: "u * 2 ^ 53 = 2 powr (real_of_int e + 1)" unfolding u_def e_def by (rule ulp_next_binade)
  have e: "- 1022 \<le> e" unfolding e_def by (rule exponent_ge)
  consider "K = 0" | "K = 2 ^ 53" | "0 < K" "K < 2 ^ 53" using K0 K53 by linarith
  then have "double_round z = z"
  proof cases
    case 1
    then show ?thesis by (simp add: z_def double_round_def)
  next
    case 2
    have z53: "z = 2 powr (real_of_int (e + 1))" unfolding z_def 2 using b53 by simp
    have zpos: "0 < z" unfolding z53 by simp
    have ez: "double_exponent z = e + 1"
      using zpos _ _ _
    proof (rule exponent_eq)
      show "2 powr real_of_int (e + 1) \<le> z" unfolding z53 by simp
      show "z < 2 powr (real_of_int (e + 1) + 1)" unfolding z53 by simp
      show "- 1022 \<le> e + 1" using e by simp
    qed
    have uz: "double_ulp z * 2 ^ 52 = z"
      using ulp_binade[of z] by (simp only: ez z53[symmetric])
    have "z / double_ulp z = real_of_int (2 ^ 52)"
      using uz ulp_pos[of z] by (simp add: field_simps)
    then have "round_half_even (z / double_ulp z) = 2 ^ 52" by (simp only: rhe_int)
    then show ?thesis unfolding double_round_pos[OF zpos] using uz by simp
  next
    case 3
    have zpos: "0 < z" unfolding z_def using u 3(1) by simp
    have zlt: "z < 2 powr (real_of_int e + 1)"
    proof -
      have "real_of_int K < 2 ^ 53" using 3(2) by (metis of_int_less_numeral_power_cancel_iff)
      then have "u * real_of_int K < u * 2 ^ 53" using u by simp
      then show ?thesis unfolding z_def b53 .
    qed
    have ez: "double_exponent z = e"
    proof (cases "K < 2 ^ 52")
      case True
      have e1022: "e = - 1022"
      proof (rule ccontr)
        assume "e \<noteq> - 1022"
        then have "- 1022 < double_exponent x" using e by (simp add: e_def)
        from significand_lower[OF x this] have "2 ^ 52 \<le> K" by (simp add: K_def u_def)
        with True show False by simp
      qed
      have "real_of_int K < 2 ^ 52" using True by (metis of_int_less_numeral_power_cancel_iff)
      then have "u * real_of_int K < u * 2 ^ 52" using u by simp
      then have "z < 2 powr (- 1022)" unfolding z_def b52 e1022 by simp
      from exponent_subnormal[OF zpos this] show ?thesis using e1022 by simp
    next
      case False
      then have "(2::real) ^ 52 \<le> real_of_int K" by (metis not_less numeral_power_le_of_int_cancel_iff)
      then have "u * 2 ^ 52 \<le> u * real_of_int K" using u by simp
      then have "2 powr real_of_int e \<le> z" unfolding z_def b52 .
      from exponent_eq[OF zpos this zlt e] show ?thesis .
    qed
    have uz: "double_ulp z = u" unfolding double_ulp_def ez u_def e_def ..
    have "z / u = real_of_int K" unfolding z_def using u by simp
    then have r: "round_half_even (z / u) = K" by (simp only: rhe_int)
    have "double_round z = double_ulp z * real_of_int (round_half_even (z / double_ulp z))"
      by (rule double_round_pos[OF zpos])
    also have "\<dots> = u * real_of_int K" by (simp only: uz r)
    finally show ?thesis by (simp add: z_def)
  qed
  then show ?thesis unfolding zx .
qed

lemma double_round_idem: "double_round (double_round x) = double_round x"
proof -
  consider "x = 0" | "0 < x" | "x < 0" by linarith
  then show ?thesis
  proof cases
    case 1 then show ?thesis by (simp add: double_round_def)
  next
    case 2 then show ?thesis by (rule double_round_idem_pos)
  next
    case 3
    then have "0 < - x" by simp
    from double_round_idem_pos[OF this] show ?thesis
      by (simp add: double_round_minus)
  qed
qed


lemma double_round_mono_pos:
  assumes x: "0 < x" and xy: "x \<le> y"
  shows "double_round x \<le> double_round y"
proof -
  have y: "0 < y" using x xy by linarith
  have ee: "double_exponent x \<le> double_exponent y" using x xy by (rule exponent_mono)
  show ?thesis
  proof (cases "double_exponent x = double_exponent y")
    case True
    then have u: "double_ulp x = double_ulp y" by (simp add: double_ulp_def)
    have "x / double_ulp y \<le> y / double_ulp y"
      using xy ulp_pos[of y] by (simp add: divide_right_mono)
    then have "round_half_even (x / double_ulp y) \<le> round_half_even (y / double_ulp y)"
      by (rule rhe_mono)
    then show ?thesis
      unfolding double_round_pos[OF x] double_round_pos[OF y] u using ulp_pos[of y] by simp
  next
    case False
    then have lt: "double_exponent x + 1 \<le> double_exponent y" using ee by linarith
    then have ny: "- 1022 < double_exponent y" using exponent_ge[of x] by linarith
    have "double_round x \<le> double_ulp x * 2 ^ 53"
    proof -
      have "real_of_int (round_half_even (x / double_ulp x)) \<le> 2 ^ 53"
        using significand_upper[OF x] by (metis of_int_le_numeral_power_cancel_iff)
      then show ?thesis unfolding double_round_pos[OF x] using ulp_pos[of x] by simp
    qed
    also have "\<dots> = 2 powr (real_of_int (double_exponent x) + 1)" by (rule ulp_next_binade)
    also have "\<dots> \<le> 2 powr real_of_int (double_exponent y)"
    proof -
      have "real_of_int (double_exponent x) + 1 \<le> real_of_int (double_exponent y)"
        using lt by linarith
      then show ?thesis by simp
    qed
    also have "\<dots> = double_ulp y * 2 ^ 52" by (rule ulp_binade[symmetric])
    also have "\<dots> \<le> double_round y"
    proof -
      have "2 ^ 52 \<le> real_of_int (round_half_even (y / double_ulp y))"
        using significand_lower[OF y ny] by (metis numeral_power_le_of_int_cancel_iff)
      then show ?thesis unfolding double_round_pos[OF y] using ulp_pos[of y] by simp
    qed
    finally show ?thesis .
  qed
qed

lemma double_round_mono: "x \<le> y \<Longrightarrow> double_round x \<le> double_round y"
proof -
  assume xy: "x \<le> y"
  consider "0 < x" | "x \<le> 0" "0 \<le> y" | "y < 0" using xy by linarith
  then show ?thesis
  proof cases
    case 1 then show ?thesis using xy by (rule double_round_mono_pos)
  next
    case 2
    have "0 \<le> double_round (- x)" using 2(1) by (intro double_round_nonneg) simp
    then have "double_round x \<le> 0" by (simp add: double_round_minus)
    also have "0 \<le> double_round y" using 2(2) by (rule double_round_nonneg)
    finally show ?thesis .
  next
    case 3
    then have "0 < - y" "- y \<le> - x" using xy by simp_all
    from double_round_mono_pos[OF this] show ?thesis by (simp add: double_round_minus)
  qed
qed

lemma double_round_0: "double_round 0 = 0"
  by (simp add: double_round_def)

subsection \<open>The type of doubles\<close>

text \<open>
  A double is a real that rounding leaves unchanged. Sums are rounded; the order,
  \<open>max\<close> and \<open>0\<close> are those of the reals. \<open>double_of\<close> is the double nearest to a
  real, \<open>real_of_double\<close> the real a double stands for.
\<close>

typedef double = "{x :: real. double_round x = x}"
  by (rule exI[of _ 0]) (simp add: double_round_0)

setup_lifting type_definition_double

instantiation double :: "{zero, plus, linorder}"
begin

lift_definition zero_double :: double is 0
  by (rule double_round_0)

lift_definition plus_double :: "double \<Rightarrow> double \<Rightarrow> double" is "\<lambda>a b. double_round (a + b)"
  by (rule double_round_idem)

lift_definition less_eq_double :: "double \<Rightarrow> double \<Rightarrow> bool" is "(\<le>)" .

lift_definition less_double :: "double \<Rightarrow> double \<Rightarrow> bool" is "(<)" .

instance
  by standard (transfer; force)+

end

lift_definition double_of :: "real \<Rightarrow> double" is double_round
  by (rule double_round_idem)

lift_definition real_of_double :: "double \<Rightarrow> real" is "\<lambda>x. x" .

lemma double_add_ge: "0 \<le> d \<Longrightarrow> a \<le> a + (d :: double)"
proof transfer
  fix d a :: real
  assume d: "double_round d = d" and a: "double_round a = a" and "0 \<le> d"
  then have "a \<le> a + d" by simp
  then have "double_round a \<le> double_round (a + d)" by (rule double_round_mono)
  then show "a \<le> double_round (a + d)" unfolding a .
qed

lemma double_of_nonneg: "0 \<le> x \<Longrightarrow> 0 \<le> double_of x"
  by transfer (rule double_round_nonneg)

section \<open>Audio helpers of \<^verbatim>\<open>liveService.ts\<close>\<close>

text \<open>\<^verbatim>\<open>String.fromCharCode\<close> keeps the low 16 bits of its argument.\<close>

definition fromCharCode :: "nat \<Rightarrow> nat" where
  "fromCharCode n = n mod 65536"

definition encode :: "Uint8Array \<Rightarrow> js_error + js_string" where
  "encode bytes = btoa (map (\<lambda>b. fromCharCode (unat b)) bytes)"

text \<open>A store into a \<^verbatim>\<open>Uint8Array\<close> keeps the low 8 bits: \<open>of_nat\<close> on \<open>8 word\<close>.\<close>

definition decode :: "js_string \<Rightarrow> js_error + Uint8Array" where
  "decode base64 =
     (case atob base64 of
        Inl e \<Rightarrow> Inl e
      | Inr binaryString \<Rightarrow> Inr (map of_nat binaryString))"

text \<open>
  A store of a number into an \<^verbatim>\<open>Int16Array\<close> is the conversion \<^verbatim>\<open>ToInt16\<close>:
  truncate towards zero, then keep the low 16 bits.
\<close>

definition js_truncate :: "real \<Rightarrow> int" where
  "js_truncate x = (if x < 0 then \<lceil>x\<rceil> else \<lfloor>x\<rfloor>)"

definition ToInt16 :: "real \<Rightarrow> 16 word" where
  "ToInt16 x = word_of_int (js_truncate x)"

text \<open>The views of one buffer, little-endian as on every platform the code runs on.\<close>

definition int16_bytes :: "16 word \<Rightarrow> 8 word list" where
  "int16_bytes w = [ucast w, ucast (drop_bit 8 w)]"

fun Int16Array_of_buffer :: "Uint8Array \<Rightarrow> js_error + Int16Array" where
  "Int16Array_of_buffer (lo # hi # rest) =
     (case Int16Array_of_buffer rest of
        Inl e \<Rightarrow> Inl e
      | Inr ws \<Rightarrow> Inr (word_cat hi lo # ws))"
| "Int16Array_of_buffer [b] = Inl RangeError"
| "Int16Array_of_buffer [] = Inr []"

text \<open>An audio context, with the sample rate it was created for.\<close>

datatype AudioContext = AudioContext nat

record AudioBuffer =
  numberOfChannels :: nat
  sampleRate :: nat
  channelData :: "Float32Array list"

definition frames :: "AudioBuffer \<Rightarrow> nat" where
  "frames b = (case channelData b of [] \<Rightarrow> 0 | c # _ \<Rightarrow> length c)"

text \<open>\<^verbatim>\<open>duration\<close> is the quotient of the length by the rate, as a double.\<close>

definition duration :: "AudioBuffer \<Rightarrow> double" where
  "duration b = double_of (real (frames b) / real (sampleRate b))"

text \<open>
  \<^verbatim>\<open>new Int16Array(data.buffer)\<close> throws \<^verbatim>\<open>RangeError\<close> on an odd number of bytes.
  \<^verbatim>\<open>createBuffer\<close> takes the whole part of the frame count and throws
  \<^verbatim>\<open>NotSupportedError\<close> for no channel or no frame; its limits on the number of channels
  and on the rate are not modelled (the one call passes one channel and 24000 Hz).
\<close>

definition decodeAudioData ::
  "Uint8Array \<Rightarrow> AudioContext \<Rightarrow> nat \<Rightarrow> nat \<Rightarrow> js_error + AudioBuffer" where
  "decodeAudioData data ctx rate numChannels =
     (case Int16Array_of_buffer data of
        Inl e \<Rightarrow> Inl e
      | Inr dataInt16 \<Rightarrow>
          (let frameCount = length dataInt16 div numChannels in
           if numChannels = 0 \<or> frameCount = 0 then Inl NotSupportedError
           else Inr \<lparr> numberOfChannels = numChannels, sampleRate = rate,
                      channelData =
                        map (\<lambda>channel.
                               map (\<lambda>i. real_of_int (sint (dataInt16 ! (i * numChannels + channel)))
                                          / 32768)
                                   [0..<frameCount])
                            [0..<numChannels] \<rparr>))"

record Blob =
  data :: js_string
  mimeType :: string

definition createBlob :: "Float32Array \<Rightarrow> js_error + Blob" where
  "createBlob samples =
     (let int16 = map (\<lambda>x. ToInt16 (x * 32768)) samples in
      case encode (concat (map int16_bytes int16)) of
        Inl e \<Rightarrow> Inl e
      | Inr text \<Rightarrow> Inr \<lparr> data = text, mimeType = ''audio/pcm;rate=16000'' \<rparr>)"

section \<open>The class \<^verbatim>\<open>LiveService\<close>\<close>

text \<open>
  The object is a record of its fields. Handles of the platform are naturals: a
  \<^verbatim>\<open>MediaStream\<close> is the list of its tracks, a \<^verbatim>\<open>ScriptProcessorNode\<close> its buffer
  size, a \<^verbatim>\<open>MediaStreamAudioSourceNode\<close> the stream it reads. Three fields are not fields of
  the class: \<open>sessionPromise\<close> is the local of \<^verbatim>\<open>connect\<close> that the closures capture,
  \<open>allocated\<close> counts the buffer source objects created so far (the identity of the next
  one), and \<open>trace\<close> records, in order, the calls of the object that open the
  connection, start, stop, send, disconnect or close something, its calls on the console
  and on the two callbacks of \<^verbatim>\<open>connect\<close>, and every entry into \<^verbatim>\<open>cleanup\<close>.
\<close>

type_synonym LiveSession = nat
type_synonym MediaStream = "nat list"
type_synonym ScriptProcessorNode = nat
type_synonym MediaStreamAudioSourceNode = "nat list"

record AudioBufferSourceNode =
  node :: nat
  buffer :: AudioBuffer
  startTime :: double

datatype event =
    ConsoleLog string
  | ConsoleError string
  | OnClose
  | OnError string
  | LiveConnect
  | SessionClose LiveSession
  | SendRealtimeInput LiveSession Blob
  | SourceStart nat double
  | SourceStop nat
  | ProcessorDisconnect
  | SourceNodeDisconnect
  | TrackStop nat
  | ContextClose AudioContext
  | CleanupCalled

text \<open>
  A promise is pending with the frames of the \<^verbatim>\<open>then\<close> callbacks registered on it, in
  the order of registration, or settled.
\<close>

datatype promise = Pending "Blob list" | Fulfilled LiveSession | Rejected

record LiveService =
  session :: "LiveSession option"
  inputAudioContext :: "AudioContext option"
  outputAudioContext :: "AudioContext option"
  nextStartTime :: double
  sources :: "AudioBufferSourceNode list"
  stream :: "MediaStream option"
  processor :: "ScriptProcessorNode option"
  sourceNode :: "MediaStreamAudioSourceNode option"
  sessionPromise :: "promise option"
  allocated :: nat
  trace :: "event list"

definition new_LiveService :: LiveService where
  "new_LiveService =
     \<lparr> session = None, inputAudioContext = None, outputAudioContext = None,
       nextStartTime = 0, sources = [], stream = None, processor = None,
       sourceNode = None, sessionPromise = None, allocated = 0, trace = [] \<rparr>"

definition emit :: "event list \<Rightarrow> LiveService \<Rightarrow> LiveService" where
  "emit es s = s\<lparr>trace := trace s @ es\<rparr>"

text \<open>A call either returns or throws; the state reached is kept in both cases.\<close>

datatype completion = Normal | Throw js_error

subsection \<open>Playback\<close>

text \<open>
  \<^verbatim>\<open>playAudioChunk\<close>, with the value of \<^verbatim>\<open>outputAudioContext.currentTime\<close> it reads.
  \<open>max\<close> is exact and \<open>+\<close> is the rounded sum of doubles. \<^verbatim>\<open>start\<close> throws \<^verbatim>\<open>RangeError\<close> on a negative time. The \<^verbatim>\<open>await\<close> is on a
  function that never suspends, so no other handler runs in between.
\<close>

definition playAudioChunk ::
  "double \<Rightarrow> js_string \<Rightarrow> LiveService \<Rightarrow> completion \<times> LiveService" where
  "playAudioChunk currentTime base64 s =
     (case outputAudioContext s of
        None \<Rightarrow> (Normal, s)
      | Some ctx \<Rightarrow>
          (let s1 = s\<lparr>nextStartTime := max (nextStartTime s) currentTime\<rparr> in
           case decode base64 of
             Inl e \<Rightarrow> (Throw e, s1)
           | Inr bytes \<Rightarrow>
               (case decodeAudioData bytes ctx 24000 1 of
                  Inl e \<Rightarrow> (Throw e, s1)
                | Inr audioBuffer \<Rightarrow>
                    (let source = \<lparr> node = allocated s1, buffer = audioBuffer,
                                    startTime = nextStartTime s1 \<rparr>;
                         s2 = s1\<lparr>allocated := Suc (allocated s1)\<rparr>
                     in if nextStartTime s2 < 0 then (Throw RangeError, s2)
                        else (Normal,
                              (emit [SourceStart (node source) (nextStartTime s2)] s2)
                                \<lparr>nextStartTime := nextStartTime s2 + duration audioBuffer,
                                 sources := sources s2 @ [source]\<rparr>)))))"

text \<open>The listener of \<^verbatim>\<open>ended\<close> that \<^verbatim>\<open>playAudioChunk\<close> installs on a source.\<close>

definition ended :: "nat \<Rightarrow> LiveService \<Rightarrow> LiveService" where
  "ended n s = s\<lparr>sources := filter (\<lambda>x. node x \<noteq> n) (sources s)\<rparr>"

definition stopAudioPlayback :: "LiveService \<Rightarrow> LiveService" where
  "stopAudioPlayback s =
     (emit (map (\<lambda>source. SourceStop (node source)) (sources s)) s)
       \<lparr>sources := [], nextStartTime := 0\<rparr>"

subsection \<open>Teardown\<close>

definition cleanup :: "LiveService \<Rightarrow> LiveService" where
  "cleanup s =
     (let s0 = stopAudioPlayback (emit [CleanupCalled] s);
          s1 = (case processor s0 of
                  None \<Rightarrow> s0
                | Some p \<Rightarrow> (emit [ProcessorDisconnect] s0)\<lparr>processor := None\<rparr>);
          s2 = (case sourceNode s1 of
                  None \<Rightarrow> s1
                | Some n \<Rightarrow> (emit [SourceNodeDisconnect] s1)\<lparr>sourceNode := None\<rparr>);
          s3 = (case stream s2 of
                  None \<Rightarrow> s2
                | Some tracks \<Rightarrow> (emit (map TrackStop tracks) s2)\<lparr>stream := None\<rparr>);
          s4 = (case inputAudioContext s3 of
                  None \<Rightarrow> s3
                | Some ctx \<Rightarrow> (emit [ContextClose ctx] s3)\<lparr>inputAudioContext := None\<rparr>);
          s5 = (case outputAudioContext s4 of
                  None \<Rightarrow> s4
                | Some ctx \<Rightarrow> (emit [ContextClose ctx] s4)\<lparr>outputAudioContext := None\<rparr>)
      in s5\<lparr>session := None\<rparr>)"

definition disconnect :: "LiveService \<Rightarrow> LiveService" where
  "disconnect s =
     cleanup (case session s of None \<Rightarrow> s | Some h \<Rightarrow> emit [SessionClose h] s)"

subsection \<open>Capture\<close>

definition startAudioInput :: "LiveService \<Rightarrow> LiveService" where
  "startAudioInput s =
     (case inputAudioContext s of
        None \<Rightarrow> s
      | Some ctx \<Rightarrow>
          (case stream s of
             None \<Rightarrow> s
           | Some tracks \<Rightarrow> s\<lparr>sourceNode := Some tracks, processor := Some 4096\<rparr>))"

text \<open>
  \<^verbatim>\<open>sessionPromise.then(session => session.sendRealtimeInput({ media: pcmBlob }))\<close>: on a
  pending promise the callback is appended to its reactions, on a fulfilled one it runs,
  on a rejected one it never runs.
\<close>

definition then_send :: "Blob \<Rightarrow> LiveService \<Rightarrow> LiveService" where
  "then_send pcmBlob s =
     (case sessionPromise s of
        None \<Rightarrow> s
      | Some (Pending waiting) \<Rightarrow> s\<lparr>sessionPromise := Some (Pending (waiting @ [pcmBlob]))\<rparr>
      | Some (Fulfilled h) \<Rightarrow> emit [SendRealtimeInput h pcmBlob] s
      | Some Rejected \<Rightarrow> s)"

definition onaudioprocess :: "Float32Array \<Rightarrow> LiveService \<Rightarrow> completion \<times> LiveService" where
  "onaudioprocess inputData s =
     (case createBlob inputData of
        Inl e \<Rightarrow> (Throw e, s)
      | Inr pcmBlob \<Rightarrow> (Normal, then_send pcmBlob s))"

subsection \<open>The connection and its callbacks\<close>

text \<open>
  What the environment answers: whether \<^verbatim>\<open>navigator.mediaDevices.getUserMedia\<close> exists,
  the stream \<^verbatim>\<open>getUserMedia\<close> resolves to (\<open>None\<close>: it rejects), and how the promise of
  \<^verbatim>\<open>ai.live.connect\<close> settles. A thrown value is an \<^verbatim>\<open>Error\<close> with its message, or some
  other value with its \<^verbatim>\<open>message\<close> property (empty when it has none).
\<close>

datatype thrown = IsError string | NotError string

record Env =
  mediaDevices :: bool
  getUserMedia :: "MediaStream option"
  liveConnect :: "thrown + LiveSession"

text \<open>The \<^verbatim>\<open>catch\<close> block of \<^verbatim>\<open>connect\<close>.\<close>

definition connect_catch :: "thrown \<Rightarrow> LiveService \<Rightarrow> LiveService" where
  "connect_catch err s =
     cleanup (emit [ConsoleError ''Failed to connect live session'',
                    OnError (case err of
                               IsError m \<Rightarrow> m
                             | NotError m \<Rightarrow> if m = [] then ''Unknown error'' else m)] s)"

text \<open>
  \<^verbatim>\<open>connect\<close> up to its last \<^verbatim>\<open>await\<close>, with the wait for \<^verbatim>\<open>getUserMedia\<close> taken in one
  step: it returns either after the \<^verbatim>\<open>catch\<close> block or suspended on the new pending
  \<open>sessionPromise\<close>. The two audio contexts are taken to be constructible.
\<close>

definition connect :: "Env \<Rightarrow> LiveService \<Rightarrow> LiveService" where
  "connect env s =
     (if mediaDevices env then
        (let s1 = s\<lparr>inputAudioContext := Some (AudioContext 16000),
                    outputAudioContext := Some (AudioContext 24000)\<rparr> in
         case getUserMedia env of
           None \<Rightarrow>
             connect_catch
               (IsError ''Could not access microphone. Please check permissions and ensure a microphone is connected.'')
               (emit [ConsoleError ''getUserMedia error:''] s1)
         | Some tracks \<Rightarrow>
             emit [LiveConnect] (s1\<lparr>stream := Some tracks, sessionPromise := Some (Pending [])\<rparr>))
      else
        connect_catch
          (IsError ''Microphone access is not supported in this environment (HTTP or no hardware).'')
          s)"

text \<open>
  The promise settles. Its reactions run in the order of registration: first the rest of
  \<^verbatim>\<open>connect\<close> (the assignment of \<^verbatim>\<open>this.session\<close>, or the \<^verbatim>\<open>catch\<close> block), then
  the callbacks of the frames captured meanwhile.
\<close>

definition sessionPromise_settled :: "thrown + LiveSession \<Rightarrow> LiveService \<Rightarrow> LiveService" where
  "sessionPromise_settled outcome s =
     (case sessionPromise s of
        Some (Pending waiting) \<Rightarrow>
          (case outcome of
             Inr h \<Rightarrow>
               emit (map (SendRealtimeInput h) waiting)
                 (s\<lparr>session := Some h, sessionPromise := Some (Fulfilled h)\<rparr>)
           | Inl err \<Rightarrow> connect_catch err (s\<lparr>sessionPromise := Some Rejected\<rparr>))
      | _ \<Rightarrow> s)"

definition onopen :: "LiveService \<Rightarrow> LiveService" where
  "onopen s = startAudioInput (emit [ConsoleLog ''Live Session Connected''] s)"

text \<open>
  A server message, as far as \<^verbatim>\<open>onmessage\<close> reads it: the inline data of the first part
  of the model turn, when there is one, and the flag \<^verbatim>\<open>interrupted\<close>.
\<close>

record LiveServerMessage =
  inlineData :: "js_string option"
  interrupted :: bool

definition onmessage ::
  "double \<Rightarrow> LiveServerMessage \<Rightarrow> LiveService \<Rightarrow> completion \<times> LiveService" where
  "onmessage currentTime message s =
     (case (case inlineData message of
              None \<Rightarrow> (Normal, s)
            | Some base64Audio \<Rightarrow>
                if base64Audio = [] then (Normal, s)
                else playAudioChunk currentTime base64Audio s) of
        (Throw e, s1) \<Rightarrow> (Throw e, s1)
      | (Normal, s1) \<Rightarrow> (Normal, if interrupted message then stopAudioPlayback s1 else s1))"

definition onclose :: "LiveService \<Rightarrow> LiveService" where
  "onclose s = emit [OnClose] (cleanup (emit [ConsoleLog ''Live Session Closed''] s))"

definition onerror :: "thrown \<Rightarrow> LiveService \<Rightarrow> LiveService" where
  "onerror e s =
     cleanup (emit [ConsoleError ''Live Session Error'',
                    OnError (case e of IsError m \<Rightarrow> m | NotError m \<Rightarrow> ''WebSocket Error'')] s)"

section \<open>The voice call of \<^verbatim>\<open>App.tsx\<close>\<close>

text \<open>
  The component state that \<^verbatim>\<open>handleVoiceStart\<close> reads and writes. Of a chat session
  only the two fields it reads are kept. \<open>liveServiceRef\<close> holds the service in the state
  it has when \<^verbatim>\<open>connect\<close> has returned; \<open>alerts\<close> and \<open>console\<close> record the calls of
  \<^verbatim>\<open>alert\<close> and \<^verbatim>\<open>console.error\<close>.
\<close>

datatype voice_status = connecting | connected | error

record User =
  user_id :: string
  user_name :: string
  avatar :: string
  isBot :: bool

record ChatSession =
  session_id :: string
  contactId :: string

definition USERS :: "string \<Rightarrow> User option" where
  "USERS key =
     (if key = ''gemini'' then
        Some \<lparr> user_id = ''gemini'', user_name = ''Gemini AI'',
               avatar = ''https://upload.wikimedia.org/wikipedia/commons/8/8a/Google_Gemini_logo.svg'',
               isBot = True \<rparr>
      else if key = ''sarah'' then
        Some \<lparr> user_id = ''sarah'', user_name = ''Sarah Chen'',
               avatar = ''https://picsum.photos/id/40/200/200'', isBot = False \<rparr>
      else if key = ''design'' then
        Some \<lparr> user_id = ''design'', user_name = ''Design Team'',
               avatar = ''https://picsum.photos/id/180/200/200'', isBot = False \<rparr>
      else None)"

record App =
  sessions :: "ChatSession list"
  activeSessionId :: "string option"
  isVoiceActive :: bool
  voiceStatus :: voice_status
  voiceErrorMsg :: string
  liveServiceRef :: "LiveService option"
  alerts :: "string list"
  console :: "string list"

text \<open>
  The two callbacks \<^verbatim>\<open>handleVoiceStart\<close> passes to \<^verbatim>\<open>connect\<close>. The timer the error
  callback starts (it clears \<open>isVoiceActive\<close> after 3.5 s) fires later, as
  \<open>voiceErrorTimeout\<close>.
\<close>

fun callback :: "event \<Rightarrow> App \<Rightarrow> App" where
  "callback OnClose app = app\<lparr>isVoiceActive := False, voiceStatus := connecting\<rparr>"
| "callback (OnError msg) app =
     app\<lparr>console := console app @ [''Voice connection error:''],
         voiceStatus := error,
         voiceErrorMsg := (if msg = [] then ''Unknown error'' else msg)\<rparr>"
| "callback _ app = app"

definition voiceErrorTimeout :: "App \<Rightarrow> App" where
  "voiceErrorTimeout app = app\<lparr>isVoiceActive := False\<rparr>"

text \<open>
  \<^verbatim>\<open>handleVoiceStart\<close>, with its \<^verbatim>\<open>await\<close> of \<^verbatim>\<open>service.connect\<close> taken in one step:
  \<^verbatim>\<open>connect\<close> runs, and when it has suspended on the session promise the promise
  settles as the environment says. The last test reads \<open>voiceStatus\<close> as the handler
  captured it when it was created, that is, the value before the call.
\<close>

definition handleVoiceStart :: "Env \<Rightarrow> App \<Rightarrow> completion \<times> App" where
  "handleVoiceStart env app =
     (case activeSessionId app of
        None \<Rightarrow> (Normal, app)
      | Some sid \<Rightarrow>
          if sid = [] then (Normal, app)
          else
            (case find (\<lambda>s. session_id s = sid) (sessions app) of
               None \<Rightarrow> (Normal, app)
             | Some chat \<Rightarrow>
                 (case USERS (contactId chat) of
                    None \<Rightarrow> (Throw TypeError, app)
                  | Some contact \<Rightarrow>
                      if isBot contact then
                        (let app1 = app\<lparr>isVoiceActive := True, voiceStatus := connecting,
                                         voiceErrorMsg := []\<rparr>;
                             service0 = connect env new_LiveService;
                             service = (case sessionPromise service0 of
                                          Some (Pending waiting) \<Rightarrow>
                                            sessionPromise_settled (liveConnect env) service0
                                        | _ \<Rightarrow> service0);
                             app2 = fold callback (trace service)
                                      (app1\<lparr>liveServiceRef := Some service\<rparr>)
                         in (Normal,
                             if voiceStatus app = error then app2
                             else app2\<lparr>voiceStatus := connected\<rparr>))
                      else
                        (Normal,
                         app\<lparr>alerts := alerts app
                                @ [''Voice chat is currently only available with Gemini AI.'']\<rparr>))))"

section \<open>Sequences of calls\<close>

text \<open>The operations on the playback schedule, and the two ways into teardown.\<close>

datatype scheduler_op = Schedule double js_string | Interrupt | Cleanup

fun scheduler_step :: "scheduler_op \<Rightarrow> LiveService \<Rightarrow> LiveService" where
  "scheduler_step (Schedule currentTime base64) s = snd (playAudioChunk currentTime base64 s)"
| "scheduler_step Interrupt s = stopAudioPlayback s"
| "scheduler_step Cleanup s = cleanup s"

fun is_schedule :: "scheduler_op \<Rightarrow> bool" where
  "is_schedule (Schedule currentTime base64) = True"
| "is_schedule _ = False"

datatype teardown = CallDisconnect | CallCleanup

fun teardown_step :: "teardown \<Rightarrow> LiveService \<Rightarrow> LiveService" where
  "teardown_step CallDisconnect s = disconnect s"
| "teardown_step CallCleanup s = cleanup s"

text \<open>The frames captured one after the other.\<close>

definition capture :: "Float32Array list \<Rightarrow> LiveService \<Rightarrow> LiveService" where
  "capture frames_in s = fold (\<lambda>inputData st. snd (onaudioprocess inputData st)) frames_in s"

text \<open>
  The text a server sends for the 16-bit samples \<open>ws\<close>: the base64 text of their
  little-endian bytes.
\<close>

definition pcm_chunk :: "Int16Array \<Rightarrow> js_string" where
  "pcm_chunk ws = (case encode (concat (map int16_bytes ws)) of Inl e \<Rightarrow> [] | Inr text \<Rightarrow> text)"

text \<open>An environment that grants everything, and the service of a call in progress.\<close>

definition granting :: Env where
  "granting = \<lparr> mediaDevices = True, getUserMedia = Some [0], liveConnect = Inr 1 \<rparr>"

definition active_service :: LiveService where
  "active_service = onopen (sessionPromise_settled (Inr 1) (connect granting new_LiveService))"

section \<open>Base64: \<open>decode\<close> inverts \<open>encode\<close>\<close>

lemma dec6_enc6: "n < 64 \<Longrightarrow> dec6 (enc6 n) = Some n"
  by (auto simp: dec6_def enc6_def)

lemma enc6_not_ws: "n < 64 \<Longrightarrow> \<not> ascii_whitespace (enc6 n)"
  by (auto simp: ascii_whitespace_def enc6_def)

lemma enc6_not_pad: "n < 64 \<Longrightarrow> enc6 n \<noteq> 61"
  by (auto simp: enc6_def)

lemma d16: "b < 256 \<Longrightarrow> b div 16 < (16::nat)"
  by (simp add: less_mult_imp_div_less)
lemma d64: "c < 256 \<Longrightarrow> c div 64 < (4::nat)"
  by (simp add: less_mult_imp_div_less)
lemma d4: "a < 256 \<Longrightarrow> a div 4 < (64::nat)"
  by (simp add: less_mult_imp_div_less)

lemma sx_bounds:
  fixes a b c :: nat
  assumes "a < 256" "b < 256" "c < 256"
  shows "a div 4 < 64" "(a mod 4) * 16 + b div 16 < 64" "(b mod 16) * 4 + c div 64 < 64"
        "c mod 64 < 64" "(b mod 16) * 4 < 64" "(a mod 4) * 16 < 64"
proof -
  have "a mod 4 < 4" "b mod 16 < 16" by simp_all
  then have "a mod 4 \<le> 3" "b mod 16 \<le> 15" by linarith+
  with d16[OF assms(2)] d64[OF assms(3)] d4[OF assms(1)]
  show "a div 4 < 64" "(a mod 4) * 16 + b div 16 < 64" "(b mod 16) * 4 + c div 64 < 64"
        "c mod 64 < 64" "(b mod 16) * 4 < 64" "(a mod 4) * 16 < 64"
    by simp_all
qed

lemma sx_inverse:
  fixes a b c :: nat
  assumes "a < 256" "b < 256" "c < 256"
  shows "a div 4 * 4 + ((a mod 4) * 16 + b div 16) div 16 = a"
        "(((a mod 4) * 16 + b div 16) mod 16) * 16 + ((b mod 16) * 4 + c div 64) div 4 = b"
        "(((b mod 16) * 4 + c div 64) mod 4) * 64 + c mod 64 = c"
        "(((a mod 4) * 16 + b div 16) mod 16) * 16 + ((b mod 16) * 4) div 4 = b"
        "a div 4 * 4 + ((a mod 4) * 16) div 16 = a"
  using d16[OF assms(2)] d64[OF assms(3)] by simp_all

lemma sextets_lt: "\<forall>x\<in>set bs. x < 256 \<Longrightarrow> \<forall>s\<in>set (b64_sextets bs). s < 64"
proof (induction bs rule: b64_sextets.induct)
  case (1 a b c rest)
  then have ab: "a < 256" "b < 256" "c < 256" and r: "\<forall>s\<in>set (b64_sextets rest). s < 64"
    by simp_all
  show ?case
    using r by (simp only: b64_sextets.simps set_append set_simps ball_Un ball_simps sx_bounds[OF ab])
next
  case (2 a b)
  then have ab: "a < 256" "b < 256" by simp_all
  show ?case
    by (simp only: b64_sextets.simps set_simps ball_simps sx_bounds[OF ab ab(1)])
next
  case (3 a)
  then have ab: "a < 256" by simp
  show ?case
    by (simp only: b64_sextets.simps set_simps ball_simps sx_bounds[OF ab ab ab])
qed simp

lemma bytes_sextets: "\<forall>x\<in>set bs. x < 256 \<Longrightarrow> b64_bytes (b64_sextets bs) = bs"
proof (induction bs rule: b64_sextets.induct)
  case (1 a b c rest)
  then have ab: "a < 256" "b < 256" "c < 256" and r: "b64_bytes (b64_sextets rest) = rest"
    by simp_all
  show ?case
    by (simp only: b64_sextets.simps b64_bytes.simps append.simps sx_inverse[OF ab] r)
next
  case (2 a b)
  then have ab: "a < 256" "b < 256" by simp_all
  show ?case
    by (simp only: b64_sextets.simps b64_bytes.simps append.simps sx_inverse[OF ab ab(1)])
next
  case (3 a)
  then have ab: "a < 256" by simp
  show ?case
    by (simp only: b64_sextets.simps b64_bytes.simps append.simps sx_inverse[OF ab ab ab])
qed simp

lemma length_sextets:
  "length (b64_sextets bs) = 4 * (length bs div 3) + (if length bs mod 3 = 0 then 0 else length bs mod 3 + 1)"
  by (induction bs rule: b64_sextets.induct) simp_all

lemma padding_cases:
  "b64_padding bs = (if length bs mod 3 = 0 then 0 else if length bs mod 3 = 1 then 2 else 1)"
proof -
  have "length bs mod 3 = 0 \<or> length bs mod 3 = 1 \<or> length bs mod 3 = 2" by linarith
  then show ?thesis by (auto simp: b64_padding_def)
qed

lemma length_text_mod4:
  "(length (b64_sextets bs) + b64_padding bs) mod 4 = 0"
proof -
  have "length bs mod 3 = 0 \<or> length bs mod 3 = 1 \<or> length bs mod 3 = 2" by linarith
  then show ?thesis by (auto simp: length_sextets padding_cases)
qed

lemma length_sextets_mod4: "length (b64_sextets bs) mod 4 \<noteq> 1"
proof -
  have "length bs mod 3 = 0 \<or> length bs mod 3 = 1 \<or> length bs mod 3 = 2" by linarith
  then show ?thesis by (auto simp: length_sextets)
qed

lemma sextets_nonempty: "b64_padding bs \<noteq> 0 \<Longrightarrow> b64_sextets bs \<noteq> []"
  by (cases bs rule: b64_sextets.cases) (auto simp: b64_padding_def)

lemma strip_padding_text:
  assumes "\<forall>c\<in>set body. c \<noteq> 61" "k \<le> 2" "k \<noteq> 0 \<longrightarrow> body \<noteq> []"
  shows "strip_padding (body @ replicate k 61) = body"
proof (cases body rule: rev_cases)
  case Nil
  then have "k = 0" using assms(3) by simp
  then show ?thesis using Nil by (simp add: strip_padding_def)
next
  case (snoc ys a)
  then have a: "a \<noteq> 61" using assms(1) by simp
  consider "k = 0" | "k = 1" | "k = 2" using assms(2) by linarith
  then show ?thesis
  proof cases
    case 1
    then show ?thesis using snoc a by (cases "rev ys") (simp_all add: strip_padding_def)
  next
    case 2
    then show ?thesis using snoc a by (simp add: strip_padding_def)
  next
    case 3
    then have "replicate k (61::nat) = [61, 61]" by (simp add: numeral_2_eq_2)
    then show ?thesis by (simp add: strip_padding_def)
  qed
qed

lemma those_dec6: "\<forall>s\<in>set sx. s < 64 \<Longrightarrow> those (map dec6 (map enc6 sx)) = Some sx"
  by (induction sx) (simp_all add: dec6_enc6)

lemma atob_btoa_text:
  assumes "\<forall>x\<in>set bs. x < 256"
  shows "atob (map enc6 (b64_sextets bs) @ replicate (b64_padding bs) 61) = Inr bs"
proof -
  let ?body = "map enc6 (b64_sextets bs)"
  let ?text = "?body @ replicate (b64_padding bs) 61"
  have lt: "\<forall>s\<in>set (b64_sextets bs). s < 64" using assms by (rule sextets_lt)
  have "\<not> ascii_whitespace 61" by (simp add: ascii_whitespace_def)
  then have nows: "\<forall>c\<in>set ?text. \<not> ascii_whitespace c"
    using lt by (auto simp: enc6_not_ws)
  then have f: "filter (\<lambda>c. \<not> ascii_whitespace c) ?text = ?text" by (simp only: filter_True)
  have len: "length ?text mod 4 = 0" using length_text_mod4[of bs] by simp
  have k: "b64_padding bs \<le> 2" by (simp add: padding_cases)
  have sp: "strip_padding ?text = ?body"
    using lt sextets_nonempty[of bs] k by (intro strip_padding_text) (auto simp: enc6_not_pad)
  have l1: "length ?body mod 4 \<noteq> 1" using length_sextets_mod4[of bs] by simp
  show ?thesis
    unfolding atob_def Let_def f using len sp l1 those_dec6[OF lt] bytes_sextets[OF assms]
    by simp
qed

lemma btoa_bytes: "\<forall>x\<in>set bs. x < 256 \<Longrightarrow> btoa bs = Inr (map enc6 (b64_sextets bs) @ replicate (b64_padding bs) 61)"
  by (auto simp: btoa_def list_ex_iff)

lemma unat_byte_less: "unat (b :: 8 word) < 256"
  using unsigned_less[of b] by simp

lemma fromCharCode_byte: "fromCharCode (unat (b :: 8 word)) = unat b"
  using unat_byte_less[of b] by (simp add: fromCharCode_def)

lemma binary_of_bytes: "\<forall>x\<in>set (map (\<lambda>b. fromCharCode (unat b)) (bytes :: 8 word list)). x < 256"
  by (simp add: fromCharCode_byte unat_byte_less)

lemma decode_encode_text:
  "encode bytes = Inr (map enc6 (b64_sextets (map unat bytes)) @ replicate (b64_padding (map unat bytes)) 61)
   \<and> decode (map enc6 (b64_sextets (map unat bytes)) @ replicate (b64_padding (map unat bytes)) 61) = Inr bytes"
proof -
  have m: "map (\<lambda>b. fromCharCode (unat b)) bytes = map unat bytes"
    by (simp add: fromCharCode_byte)
  have b: "\<forall>x\<in>set (map unat bytes). x < 256" by (simp add: unat_byte_less)
  have rt: "map of_nat (map unat bytes) = bytes" by (simp add: map_idI)
  show ?thesis
    unfolding encode_def decode_def m btoa_bytes[OF b] using atob_btoa_text[OF b] rt by simp
qed

text \<open>
  Claim C10. For every byte array \<open>b\<close>, \<open>encode b\<close> returns a text (it does not
  throw), and \<open>decode\<close> of that text returns \<open>b\<close> exactly: the base64 text encoding
  of outbound frames and the decoding of inbound frames are mutually inverse and lossless.
\<close>

theorem C10_decode_encode:
  "\<exists>text. encode bytes = Inr text \<and> decode text = Inr bytes"
  using decode_encode_text[of bytes] by blast

section \<open>Quantization of samples\<close>

lemma word_cat_bytes: "word_cat (ucast (drop_bit 8 w) :: 8 word) (ucast w :: 8 word) = (w :: 16 word)"
  by (rule bit_word_eqI) (auto simp: bit_word_cat_iff bit_ucast_iff bit_drop_bit_eq not_less)

lemma Int16Array_bytes: "Int16Array_of_buffer (concat (map int16_bytes ws)) = Inr ws"
  by (induction ws) (simp_all add: int16_bytes_def word_cat_bytes)

lemma js_truncate_range:
  assumes "-1 \<le> s" "s < 1"
  shows "- 32768 \<le> js_truncate (s * 32768)" "js_truncate (s * 32768) < 32768"
proof -
  have lo: "(-32768::real) \<le> s * 32768" and hi: "s * 32768 < 32768" using assms by simp_all
  show "- 32768 \<le> js_truncate (s * 32768)"
    using lo by (auto simp: js_truncate_def le_floor_iff le_ceiling_iff)
  show "js_truncate (s * 32768) < 32768"
    using hi by (auto simp: js_truncate_def floor_less_iff ceiling_less_iff)
qed

lemma sint_int16: "- 32768 \<le> k \<Longrightarrow> k < 32768 \<Longrightarrow> sint (word_of_int k :: 16 word) = k"
  by (simp add: sint_sbintrunc' signed_take_bit_int_eq_self)

lemma js_truncate_error: "\<bar>real_of_int (js_truncate x) - x\<bar> < 1"
  unfolding js_truncate_def by (auto; linarith)

lemma sample_round_trip:
  assumes "-1 \<le> s" "s < 1"
  shows "sint (ToInt16 (s * 32768)) = js_truncate (s * 32768)"
    and "\<bar>real_of_int (sint (ToInt16 (s * 32768))) / 32768 - s\<bar> < 1 / 32768"
proof -
  show eq: "sint (ToInt16 (s * 32768)) = js_truncate (s * 32768)"
    unfolding ToInt16_def using js_truncate_range[OF assms] by (rule sint_int16)
  have "\<bar>real_of_int (js_truncate (s * 32768)) - s * 32768\<bar> < 1" by (rule js_truncate_error)
  then have "\<bar>real_of_int (js_truncate (s * 32768)) / 32768 - s\<bar> * 32768 < 1"
    by (simp add: abs_if field_simps split: if_splits)
  then show "\<bar>real_of_int (sint (ToInt16 (s * 32768))) / 32768 - s\<bar> < 1 / 32768"
    unfolding eq by (simp add: field_simps)
qed


lemma createBlob_text:
  "createBlob samples =
     Inr \<lparr> data = map enc6 (b64_sextets (map unat (concat (map int16_bytes (map (\<lambda>x. ToInt16 (x * 32768)) samples)))))
                    @ replicate (b64_padding (map unat (concat (map int16_bytes (map (\<lambda>x. ToInt16 (x * 32768)) samples))))) 61,
            mimeType = ''audio/pcm;rate=16000'' \<rparr>"
  unfolding createBlob_def Let_def
  using decode_encode_text[of "concat (map int16_bytes (map (\<lambda>x. ToInt16 (x * 32768)) samples))"]
  by simp

lemma decodeAudioData_mono:
  assumes "ws \<noteq> []"
  shows "decodeAudioData (concat (map int16_bytes ws)) ctx rate 1 =
           Inr \<lparr> numberOfChannels = 1, sampleRate = rate,
                  channelData = [map (\<lambda>w. real_of_int (sint w) / 32768) ws] \<rparr>"
proof -
  have "map (\<lambda>i. real_of_int (sint (ws ! i)) / 32768) [0..<length ws]
          = map (\<lambda>w. real_of_int (sint w) / 32768) ws"
    by (rule nth_equalityI) simp_all
  then show ?thesis
    using assms by (simp add: decodeAudioData_def Int16Array_bytes)
qed

lemma replicate_2: "replicate 2 x = [x, x]"
  by (simp add: numeral_2_eq_2)

text \<open>
  Claim C1, as amended. For every non-empty frame whose samples \<open>s\<close> lie in \<open>[-1, 1)\<close>,
  \<open>createBlob\<close> returns a chunk tagged \<^verbatim>\<open>audio/pcm;rate=16000\<close> whose text decodes to
  the little-endian bytes of the 16-bit values \<open>ToInt16 (s * 32768)\<close>; each of them reads
  as the truncation of \<open>s * 32768\<close> towards zero (it is inside the 16-bit range, nothing
  wraps), and \<open>decodeAudioData\<close> on these bytes returns, sample by sample, a value within
  \<open>1 / 32768\<close> of \<open>s\<close>. The store truncates, it does not round; the sample \<open>1\<close> is
  left out.
\<close>

theorem C1_quantization_round_trip:
  assumes "samples \<noteq> []" and "\<forall>s\<in>set samples. -1 \<le> s \<and> s < 1"
  shows "\<exists>blob bytes out.
           createBlob samples = Inr blob \<and> mimeType blob = ''audio/pcm;rate=16000''
         \<and> decode (data blob) = Inr bytes
         \<and> Int16Array_of_buffer bytes = Inr (map (\<lambda>s. ToInt16 (s * 32768)) samples)
         \<and> map (\<lambda>s. sint (ToInt16 (s * 32768))) samples = map (\<lambda>s. js_truncate (s * 32768)) samples
         \<and> decodeAudioData bytes ctx rate 1
             = Inr \<lparr> numberOfChannels = 1, sampleRate = rate, channelData = [out] \<rparr>
         \<and> length out = length samples
         \<and> (\<forall>i<length samples. \<bar>out ! i - samples ! i\<bar> < 1 / 32768)"
proof -
  let ?ws = "map (\<lambda>s. ToInt16 (s * 32768)) samples"
  let ?bytes = "concat (map int16_bytes ?ws)"
  let ?out = "map (\<lambda>w. real_of_int (sint w) / 32768) ?ws"
  have ne: "?ws \<noteq> []" using assms(1) by simp
  have err: "\<bar>?out ! i - samples ! i\<bar> < 1 / 32768" if "i < length samples" for i
  proof -
    have "samples ! i \<in> set samples" using that by simp
    then have "-1 \<le> samples ! i" "samples ! i < 1" using assms(2) by auto
    then show ?thesis using sample_round_trip(2) that by simp
  qed
  have tr: "map (\<lambda>s. sint (ToInt16 (s * 32768))) samples = map (\<lambda>s. js_truncate (s * 32768)) samples"
    using assms(2) by (intro map_cong refl sample_round_trip(1)) auto
  have "createBlob samples = Inr \<lparr> data = map enc6 (b64_sextets (map unat ?bytes)) @ replicate (b64_padding (map unat ?bytes)) 61,
            mimeType = ''audio/pcm;rate=16000'' \<rparr>" (is "_ = Inr ?blob")
    by (rule createBlob_text)
  moreover have "mimeType ?blob = ''audio/pcm;rate=16000''" by simp
  moreover have "decode (data ?blob) = Inr ?bytes"
    using decode_encode_text[of ?bytes] by simp
  moreover have "Int16Array_of_buffer ?bytes = Inr ?ws" by (rule Int16Array_bytes)
  moreover have "decodeAudioData ?bytes ctx rate 1
      = Inr \<lparr> numberOfChannels = 1, sampleRate = rate, channelData = [?out] \<rparr>"
    using ne by (rule decodeAudioData_mono)
  moreover have "length ?out = length samples" by simp
  ultimately show ?thesis using tr err by blast
qed

text \<open>The theorem of C1 at the frame \<open>[-1, 1/2]\<close>.\<close>

theorem C1_witness:
  "\<exists>blob bytes out.
           createBlob [-1, 1/2] = Inr blob \<and> mimeType blob = ''audio/pcm;rate=16000''
         \<and> decode (data blob) = Inr bytes
         \<and> Int16Array_of_buffer bytes = Inr (map (\<lambda>s. ToInt16 (s * 32768)) [-1, 1/2])
         \<and> map (\<lambda>s. sint (ToInt16 (s * 32768))) [-1, 1/2 :: real] = map (\<lambda>s. js_truncate (s * 32768)) [-1, 1/2]
         \<and> decodeAudioData bytes (AudioContext 24000) 24000 1
             = Inr \<lparr> numberOfChannels = 1, sampleRate = 24000, channelData = [out] \<rparr>
         \<and> length out = length [-1, 1/2 :: real]
         \<and> (\<bar>out ! 0 - (-1)\<bar> < 1 / 32768) \<and> (\<bar>out ! 1 - 1/2\<bar> < 1 / 32768)"
proof -
  have "[-1, 1/2 :: real] \<noteq> []" "\<forall>s\<in>set [-1, 1/2 :: real]. -1 \<le> s \<and> s < 1" by simp_all
  from C1_quantization_round_trip[OF this, where rate = 24000 and ctx = "AudioContext 24000"]
  obtain blob bytes out where
     h: "createBlob [-1, 1/2] = Inr blob" "mimeType blob = ''audio/pcm;rate=16000''"
        "decode (data blob) = Inr bytes"
        "Int16Array_of_buffer bytes = Inr (map (\<lambda>s. ToInt16 (s * 32768)) [-1, 1/2])"
        "map (\<lambda>s. sint (ToInt16 (s * 32768))) [-1, 1/2 :: real] = map (\<lambda>s. js_truncate (s * 32768)) [-1, 1/2]"
        "decodeAudioData bytes (AudioContext 24000) 24000 1
             = Inr \<lparr> numberOfChannels = 1, sampleRate = 24000, channelData = [out] \<rparr>"
        "length out = length [-1, 1/2 :: real]"
        "\<forall>i<length [-1, 1/2 :: real]. \<bar>out ! i - [-1, 1/2] ! i\<bar> < 1 / 32768"
    by blast
  from h(8) have "\<bar>out ! 0 - (-1)\<bar> < 1 / 32768" "\<bar>out ! 1 - 1/2\<bar> < 1 / 32768"
    by (auto dest: spec[of _ 0] spec[of _ 1])
  with h(1-7) show ?thesis by blast
qed

text \<open>
  Claim C1 as stated fails on the frame \<open>[1, 3/131072]\<close>. The sample \<open>1\<close> gives
  \<open>32768\<close>, which the store wraps to \<open>-32768\<close> instead of clamping it to \<open>32767\<close>,
  and playback decodes it to \<open>-1\<close>, at distance \<open>2\<close> from the sample. The sample
  \<open>3/131072\<close> gives \<open>0.75\<close>, stored as \<open>0\<close> where rounding gives \<open>1\<close>.
\<close>

theorem C1_counterexample:
  "createBlob [1, 3 / 131072] = Inr \<lparr> data = js_str ''AIAAAA=='', mimeType = ''audio/pcm;rate=16000'' \<rparr>
   \<and> decode (js_str ''AIAAAA=='') = Inr [0, 128, 0, 0]
   \<and> decodeAudioData [0, 128, 0, 0] (AudioContext 24000) 24000 1
        = Inr \<lparr> numberOfChannels = 1, sampleRate = 24000, channelData = [[-1, 0]] \<rparr>
   \<and> sint (ToInt16 (1 * 32768)) = - 32768
   \<and> \<not> \<bar>(-1) - (1::real)\<bar> \<le> 1 / 32768
   \<and> sint (ToInt16 (3 / 131072 * 32768)) = 0
   \<and> round (3 / 131072 * 32768 :: real) = 1"
proof -
  have a: "createBlob [1, 3 / 131072] = Inr \<lparr> data = js_str ''AIAAAA=='', mimeType = ''audio/pcm;rate=16000'' \<rparr>"
    by (simp add: createBlob_def ToInt16_def js_truncate_def int16_bytes_def encode_def btoa_def
      fromCharCode_def b64_padding_def enc6_def js_str_def numeral_2_eq_2[symmetric] replicate_2)
  have b: "decode (js_str ''AIAAAA=='') = Inr [0, 128, 0, 0]"
    by (simp add: decode_def atob_def js_str_def ascii_whitespace_def strip_padding_def dec6_def)
  have c: "decodeAudioData [0, 128, 0, 0] (AudioContext 24000) 24000 1
        = Inr \<lparr> numberOfChannels = 1, sampleRate = 24000, channelData = [[-1, 0]] \<rparr>"
    by (simp add: decodeAudioData_def word_cat_eq upt_rec)
  have d: "sint (ToInt16 (1 * 32768)) = - 32768"
    by (simp add: ToInt16_def js_truncate_def)
  have e: "sint (ToInt16 (3 / 131072 * 32768)) = 0" "round (3 / 131072 * 32768 :: real) = 1"
    by (simp_all add: ToInt16_def js_truncate_def round_def)
  show ?thesis using a b c d e by simp
qed

section \<open>The playback schedule\<close>

lemma playAudioChunk_scheduled:
  assumes "outputAudioContext s = Some ctx"
    and "0 \<le> max (nextStartTime s) currentTime"
    and "decode base64 = Inr bytes" and "decodeAudioData bytes ctx 24000 1 = Inr audioBuffer"
  shows "playAudioChunk currentTime base64 s =
           (Normal,
            s\<lparr>nextStartTime := max (nextStartTime s) currentTime + duration audioBuffer,
              sources := sources s @ [\<lparr> node = allocated s, buffer = audioBuffer,
                                         startTime = max (nextStartTime s) currentTime \<rparr>],
              allocated := Suc (allocated s),
              trace := trace s @ [SourceStart (allocated s) (max (nextStartTime s) currentTime)]\<rparr>)"
  using assms by (simp add: playAudioChunk_def emit_def Let_def not_less[symmetric])

lemma duration_nonneg: "0 \<le> duration b"
  unfolding duration_def by (rule double_of_nonneg) simp

lemma playAudioChunk_nextStartTime:
  "nextStartTime s \<le> nextStartTime (snd (playAudioChunk currentTime base64 s))"
proof -
  have "nextStartTime s \<le> max (nextStartTime s) currentTime" by simp
  moreover have "max (nextStartTime s) currentTime \<le> max (nextStartTime s) currentTime + duration b" for b
    using duration_nonneg by (rule double_add_ge)
  ultimately have "nextStartTime s \<le> max (nextStartTime s) currentTime + duration b" for b
    by (rule order_trans)
  then show ?thesis
    by (auto simp: playAudioChunk_def emit_def Let_def split: option.splits sum.splits)
qed

lemma stopAudioPlayback_simps:
  "sources (stopAudioPlayback s) = []"
  "nextStartTime (stopAudioPlayback s) = 0"
  "trace (stopAudioPlayback s) = trace s @ map (\<lambda>source. SourceStop (node source)) (sources s)"
  by (simp_all add: stopAudioPlayback_def emit_def)

lemma cleanup_nextStartTime: "nextStartTime (cleanup s) = 0"
  by (simp add: cleanup_def Let_def stopAudioPlayback_def emit_def split: option.splits)

lemma schedule_run_mono:
  "list_all is_schedule ops \<Longrightarrow> nextStartTime s \<le> nextStartTime (fold scheduler_step ops s)"
proof (induction ops arbitrary: s)
  case Nil
  then show ?case by simp
next
  case (Cons op ops)
  then obtain t b where op: "op = Schedule t b" by (cases op) auto
  have "nextStartTime s \<le> nextStartTime (scheduler_step op s)"
    unfolding op by (simp add: playAudioChunk_nextStartTime)
  also have "\<dots> \<le> nextStartTime (fold scheduler_step ops (scheduler_step op s))"
    using Cons by simp
  finally show ?case by simp
qed

lemma decode_pcm_chunk: "decode (pcm_chunk ws) = Inr (concat (map int16_bytes ws))"
  using decode_encode_text[of "concat (map int16_bytes ws)"] by (simp add: pcm_chunk_def)

lemma duration_mono_buffer:
  "duration \<lparr> numberOfChannels = 1, sampleRate = 24000,
               channelData = [map (\<lambda>w. real_of_int (sint w) / 32768) ws] \<rparr>
     = double_of (real (length ws) / 24000)"
  by (simp add: duration_def frames_def)

lemma three_chunks:
  assumes "outputAudioContext s = Some ctx"
    and "0 \<le> t1" and "t2 \<le> max (nextStartTime s) t1" and "t3 \<le> max (nextStartTime s) t1"
    and "decode c1 = Inr y1" and "decodeAudioData y1 ctx 24000 1 = Inr b1"
    and "decode c2 = Inr y2" and "decodeAudioData y2 ctx 24000 1 = Inr b2"
    and "decode c3 = Inr y3" and "decodeAudioData y3 ctx 24000 1 = Inr b3"
  shows "(let t0 = max (nextStartTime s) t1;
              r1 = playAudioChunk t1 c1 s;
              r2 = playAudioChunk t2 c2 (snd r1);
              r3 = playAudioChunk t3 c3 (snd r2)
          in fst r1 = Normal \<and> fst r2 = Normal \<and> fst r3 = Normal
           \<and> sources (snd r1) = sources s @ [\<lparr> node = allocated s, buffer = b1, startTime = t0 \<rparr>]
           \<and> nextStartTime (snd r1) = t0 + duration b1
           \<and> map startTime (sources (snd r3))
                = map startTime (sources s) @ [t0, t0 + duration b1, t0 + duration b1 + duration b2]
           \<and> nextStartTime (snd r3) = t0 + duration b1 + duration b2 + duration b3)"
proof -
  define t0 where "t0 = max (nextStartTime s) t1"
  have t0: "0 \<le> t0" using assms(2) by (simp add: t0_def le_max_iff_disj)
  have g1: "t0 \<le> t0 + duration b1" using duration_nonneg by (rule double_add_ge)
  have g2: "t0 + duration b1 \<le> t0 + duration b1 + duration b2"
    using duration_nonneg by (rule double_add_ge)
  define s1 where "s1 = snd (playAudioChunk t1 c1 s)"
  define s2 where "s2 = snd (playAudioChunk t2 c2 s1)"
  have r1: "playAudioChunk t1 c1 s =
      (Normal, s\<lparr>nextStartTime := t0 + duration b1,
              sources := sources s @ [\<lparr> node = allocated s, buffer = b1, startTime = t0 \<rparr>],
              allocated := Suc (allocated s),
              trace := trace s @ [SourceStart (allocated s) t0]\<rparr>)"
    unfolding t0_def using assms(1) t0[unfolded t0_def] assms(5,6) by (rule playAudioChunk_scheduled)
  have s1: "outputAudioContext s1 = Some ctx" "nextStartTime s1 = t0 + duration b1"
    "sources s1 = sources s @ [\<lparr> node = allocated s, buffer = b1, startTime = t0 \<rparr>]"
    using assms(1) by (simp_all add: s1_def r1)
  have le: "t2 \<le> t0" "t3 \<le> t0" using assms(3,4) by (simp_all add: t0_def)
  have "t2 \<le> t0 + duration b1" using le(1) g1 by (rule order_trans)
  then have m2: "max (nextStartTime s1) t2 = t0 + duration b1"
    by (simp add: s1(2) max_absorb1)
  have p2: "0 \<le> t0 + duration b1" using t0 g1 by (rule order_trans)
  have r2: "playAudioChunk t2 c2 s1 =
      (Normal, s1\<lparr>nextStartTime := t0 + duration b1 + duration b2,
              sources := sources s1 @ [\<lparr> node = allocated s1, buffer = b2, startTime = t0 + duration b1 \<rparr>],
              allocated := Suc (allocated s1),
              trace := trace s1 @ [SourceStart (allocated s1) (t0 + duration b1)]\<rparr>)"
    using playAudioChunk_scheduled[OF s1(1) _ assms(7,8), of t2] p2 unfolding m2 by simp
  have s2: "outputAudioContext s2 = Some ctx" "nextStartTime s2 = t0 + duration b1 + duration b2"
    "sources s2 = sources s1 @ [\<lparr> node = allocated s1, buffer = b2, startTime = t0 + duration b1 \<rparr>]"
    using s1(1) by (simp_all add: s2_def r2)
  have "t3 \<le> t0 + duration b1" using le(2) g1 by (rule order_trans)
  then have "t3 \<le> t0 + duration b1 + duration b2" using g2 by (rule order_trans)
  then have m3: "max (nextStartTime s2) t3 = t0 + duration b1 + duration b2"
    by (simp add: s2(2) max_absorb1)
  have p3: "0 \<le> t0 + duration b1 + duration b2" using p2 g2 by (rule order_trans)
  have r3: "playAudioChunk t3 c3 s2 =
      (Normal, s2\<lparr>nextStartTime := t0 + duration b1 + duration b2 + duration b3,
              sources := sources s2 @ [\<lparr> node = allocated s2, buffer = b3, startTime = t0 + duration b1 + duration b2 \<rparr>],
              allocated := Suc (allocated s2),
              trace := trace s2 @ [SourceStart (allocated s2) (t0 + duration b1 + duration b2)]\<rparr>)"
    using playAudioChunk_scheduled[OF s2(1) _ assms(9,10), of t3] p3 unfolding m3 by simp
  show ?thesis
    unfolding Let_def t0_def[symmetric] s1_def[symmetric] s2_def[symmetric]
    by (simp add: r1 r2 r3 s1 s2 s1_def[symmetric] s2_def[symmetric])
qed

text \<open>
  Claim C2, as amended. An item that decodes is scheduled with \<open>start = max nextStartTime
  currentTime\<close>, its end is \<open>start + duration\<close>, and \<open>nextStartTime\<close> becomes that
  end, where \<open>+\<close> is the addition of doubles, which rounds. So three chunks that arrive
  while the output clock has not passed the first start \<open>t0\<close> start at \<open>t0\<close>, at
  \<open>t0 + d1\<close> and at \<open>(t0 + d1) + d2\<close> for their durations \<open>d1\<close>, \<open>d2\<close>: each starts
  exactly where the one before ends, with no gap. For chunks of 0.1 s these sums are
  \<open>t0 + 0.1\<close> and \<open>t0 + 0.2\<close> up to the rounding of each addition, not exactly. The
  output clock is never negative.
\<close>

theorem C2_schedule_back_to_back:
  assumes "outputAudioContext s = Some ctx"
    and "0 \<le> t1" and "t2 \<le> max (nextStartTime s) t1" and "t3 \<le> max (nextStartTime s) t1"
    and "decode c1 = Inr y1" and "decodeAudioData y1 ctx 24000 1 = Inr b1"
    and "decode c2 = Inr y2" and "decodeAudioData y2 ctx 24000 1 = Inr b2"
    and "decode c3 = Inr y3" and "decodeAudioData y3 ctx 24000 1 = Inr b3"
  shows "(let t0 = max (nextStartTime s) t1;
              r1 = playAudioChunk t1 c1 s;
              r2 = playAudioChunk t2 c2 (snd r1);
              r3 = playAudioChunk t3 c3 (snd r2)
          in fst r1 = Normal \<and> fst r2 = Normal \<and> fst r3 = Normal
           \<and> sources (snd r1) = sources s @ [\<lparr> node = allocated s, buffer = b1, startTime = t0 \<rparr>]
           \<and> nextStartTime (snd r1) = t0 + duration b1
           \<and> map startTime (sources (snd r3))
                = map startTime (sources s) @ [t0, t0 + duration b1, t0 + duration b1 + duration b2]
           \<and> nextStartTime (snd r3) = t0 + duration b1 + duration b2 + duration b3)"
  using assms by (rule three_chunks)

lemma active_service_fields:
  "outputAudioContext active_service = Some (AudioContext 24000)"
  "inputAudioContext active_service = Some (AudioContext 16000)"
  "nextStartTime active_service = 0"
  "sources active_service = []"
  "session active_service = Some 1"
  "stream active_service = Some [0]"
  "processor active_service = Some 4096"
  "sourceNode active_service = Some [0]"
  "sessionPromise active_service = Some (Fulfilled 1)"
  "allocated active_service = 0"
  "trace active_service = [LiveConnect, ConsoleLog ''Live Session Connected'']"
  by (simp_all add: active_service_def onopen_def sessionPromise_settled_def connect_def
      granting_def new_LiveService_def emit_def startAudioInput_def)

lemma tenth_chunk:
  "decode (pcm_chunk (replicate 2400 0)) = Inr (concat (map int16_bytes (replicate 2400 0)))"
  "decodeAudioData (concat (map int16_bytes (replicate 2400 0))) ctx 24000 1
     = Inr \<lparr> numberOfChannels = 1, sampleRate = 24000,
              channelData = [map (\<lambda>w. real_of_int (sint w) / 32768) (replicate 2400 (0 :: 16 word))] \<rparr>"
  "duration \<lparr> numberOfChannels = 1, sampleRate = 24000,
              channelData = [map (\<lambda>w. real_of_int (sint w) / 32768) (replicate 2400 (0 :: 16 word))] \<rparr>
     = double_of (1 / 10)"
proof -
  show "decode (pcm_chunk (replicate 2400 0)) = Inr (concat (map int16_bytes (replicate 2400 0)))"
    by (rule decode_pcm_chunk)
  show "decodeAudioData (concat (map int16_bytes (replicate 2400 0))) ctx 24000 1
     = Inr \<lparr> numberOfChannels = 1, sampleRate = 24000,
              channelData = [map (\<lambda>w. real_of_int (sint w) / 32768) (replicate 2400 (0 :: 16 word))] \<rparr>"
    by (rule decodeAudioData_mono) simp
  show "duration \<lparr> numberOfChannels = 1, sampleRate = 24000,
              channelData = [map (\<lambda>w. real_of_int (sint w) / 32768) (replicate 2400 (0 :: 16 word))] \<rparr>
     = double_of (1 / 10)"
    unfolding duration_mono_buffer by simp
qed

lemma five_nonneg: "0 \<le> double_of 5" "double_of 5 \<le> max (nextStartTime active_service) (double_of 5)"
  by (simp_all add: double_of_nonneg)

text \<open>
  The theorem of C2 on a call in progress at clock \<open>5\<close>, with three chunks of 2400
  samples each, that is 0.1 s at 24000 Hz.
\<close>

theorem C2_witness:
  "(let c = pcm_chunk (replicate 2400 0);
        r1 = playAudioChunk (double_of 5) c active_service;
        r2 = playAudioChunk (double_of 5) c (snd r1);
        r3 = playAudioChunk (double_of 5) c (snd r2)
    in fst r1 = Normal \<and> fst r2 = Normal \<and> fst r3 = Normal
     \<and> map startTime (sources (snd r3))
          = [double_of 5, double_of 5 + double_of (1 / 10),
             double_of 5 + double_of (1 / 10) + double_of (1 / 10)]
     \<and> nextStartTime (snd r3)
          = double_of 5 + double_of (1 / 10) + double_of (1 / 10) + double_of (1 / 10))"
  using C2_schedule_back_to_back[OF active_service_fields(1) five_nonneg(1) five_nonneg(2) five_nonneg(2)
          tenth_chunk(1,2) tenth_chunk(1,2) tenth_chunk(1,2)]
  unfolding tenth_chunk(3) by (simp add: Let_def active_service_fields max_absorb2 five_nonneg)

lemma double_round_eval:
  assumes "0 < x" and "2 powr real_of_int e \<le> x" and "x < 2 powr (real_of_int e + 1)" and "- 1022 \<le> e"
  shows "double_round x
           = 2 powr (real_of_int e - 52) * real_of_int (round_half_even (x / 2 powr (real_of_int e - 52)))"
  unfolding double_round_pos[OF assms(1)] double_ulp_def exponent_eq[OF assms] ..

lemma double_values:
  "double_round 5 = 5"
  "double_round (1 / 10) = 3602879701896397 / 36028797018963968"
  "double_round (5 + 3602879701896397 / 36028797018963968) = 2871044762448691 / 562949953421312"
  "double_round (2871044762448691 / 562949953421312 + 3602879701896397 / 36028797018963968)
     = 1463669878895411 / 281474976710656"
  "double_round (26 / 5) = 5854679515581645 / 1125899906842624"
  using double_round_eval[of 5 2] double_round_eval[of "1 / 10" "- 4"]
    double_round_eval[of "5 + 3602879701896397 / 36028797018963968" 2]
    double_round_eval[of "2871044762448691 / 562949953421312 + 3602879701896397 / 36028797018963968" 2]
    double_round_eval[of "26 / 5" 2]
  by (simp_all add: round_half_even_def powr_minus_divide)

lemma third_start:
  "real_of_double (double_of 5 + double_of (1 / 10) + double_of (1 / 10))
     = 1463669878895411 / 281474976710656"
  by transfer (simp only: double_values)

lemma play_three:
  "map startTime (sources (snd (playAudioChunk (double_of 5) (pcm_chunk (replicate 2400 0))
      (snd (playAudioChunk (double_of 5) (pcm_chunk (replicate 2400 0))
        (snd (playAudioChunk (double_of 5) (pcm_chunk (replicate 2400 0)) active_service)))))))
     = [double_of 5, double_of 5 + double_of (1 / 10),
        double_of 5 + double_of (1 / 10) + double_of (1 / 10)]"
  using three_chunks[OF active_service_fields(1) five_nonneg(1) five_nonneg(2) five_nonneg(2)
          tenth_chunk(1,2) tenth_chunk(1,2) tenth_chunk(1,2)]
  unfolding tenth_chunk(3) by (simp add: Let_def active_service_fields max_absorb2 five_nonneg)

text \<open>
  Claim C2 as stated fails on a call in progress at clock \<open>5\<close> with three chunks of
  0.1 s: the third start is \<open>5.199999999999999...\<close>, the double
  \<open>1463669878895411 / 2 ^ 48\<close>, which is neither the number \<open>5.2\<close> nor the double
  nearest to it.
\<close>

theorem C2_counterexample:
  "map (\<lambda>source. real_of_double (startTime source))
       (sources (snd (playAudioChunk (double_of 5) (pcm_chunk (replicate 2400 0))
          (snd (playAudioChunk (double_of 5) (pcm_chunk (replicate 2400 0))
            (snd (playAudioChunk (double_of 5) (pcm_chunk (replicate 2400 0)) active_service)))))))
     = [5, 2871044762448691 / 562949953421312, 1463669878895411 / 281474976710656]
   \<and> (1463669878895411 / 281474976710656 :: real) \<noteq> 5 + 2 / 10
   \<and> (1463669878895411 / 281474976710656 :: real) \<noteq> real_of_double (double_of (5 + 2 / 10))"
proof -
  have a: "real_of_double (double_of 5) = 5"
    by transfer (simp only: double_values)
  have b: "real_of_double (double_of 5 + double_of (1 / 10)) = 2871044762448691 / 562949953421312"
    by transfer (simp only: double_values)
  have c: "real_of_double (double_of (26 / 5)) = 5854679515581645 / 1125899906842624"
    by transfer (simp only: double_values)
  have "map (\<lambda>source. real_of_double (startTime source))
       (sources (snd (playAudioChunk (double_of 5) (pcm_chunk (replicate 2400 0))
          (snd (playAudioChunk (double_of 5) (pcm_chunk (replicate 2400 0))
            (snd (playAudioChunk (double_of 5) (pcm_chunk (replicate 2400 0)) active_service)))))))
     = map real_of_double [double_of 5, double_of 5 + double_of (1 / 10),
        double_of 5 + double_of (1 / 10) + double_of (1 / 10)]"
    unfolding play_three[symmetric] by (simp add: comp_def)
  then show ?thesis by (simp add: a b c third_start)
qed

text \<open>
  Claim C3, as amended. After \<open>stopAudioPlayback\<close> every source of the active set has
  been stopped, the set is empty, and \<open>nextStartTime\<close> is \<open>0\<close>, not the value of the
  output clock; as the clock is never negative, \<open>nextStartTime\<close> is at most the clock at
  that instant.
\<close>

theorem C3_interrupt_resets:
  assumes "0 \<le> currentTime"
  shows "sources (stopAudioPlayback s) = []
       \<and> trace (stopAudioPlayback s) = trace s @ map (\<lambda>source. SourceStop (node source)) (sources s)
       \<and> nextStartTime (stopAudioPlayback s) = 0
       \<and> nextStartTime (stopAudioPlayback s) \<le> currentTime"
  using assms by (simp add: stopAudioPlayback_simps)

lemma decode_AAA: "decode (js_str ''AAA='') = Inr [0, 0]"
  by (simp add: decode_def atob_def js_str_def ascii_whitespace_def strip_padding_def dec6_def)

lemma decodeAudioData_00:
  "decodeAudioData [0, 0] ctx 24000 1
     = Inr \<lparr> numberOfChannels = 1, sampleRate = 24000, channelData = [[0]] \<rparr>"
  by (simp add: decodeAudioData_def word_cat_eq)

lemma play_AAA:
  "playAudioChunk (double_of 5) (js_str ''AAA='') active_service =
     (Normal, active_service\<lparr>nextStartTime := double_of 5 + double_of (1 / 24000),
        sources := [\<lparr> node = 0, buffer = \<lparr> numberOfChannels = 1, sampleRate = 24000, channelData = [[0]] \<rparr>, startTime = double_of 5 \<rparr>],
        allocated := Suc 0,
        trace := [LiveConnect, ConsoleLog ''Live Session Connected'', SourceStart 0 (double_of 5)]\<rparr>)"
  using playAudioChunk_scheduled[OF active_service_fields(1) _ decode_AAA decodeAudioData_00, of "double_of 5"]
  by (simp add: active_service_fields duration_def frames_def max_absorb2 five_nonneg)

text \<open>The theorem of C3 at clock \<open>5\<close>, with one item in the active set.\<close>

theorem C3_witness:
  "0 \<le> double_of 5
   \<and> sources (stopAudioPlayback (snd (playAudioChunk (double_of 5) (js_str ''AAA='') active_service))) = []
   \<and> trace (stopAudioPlayback (snd (playAudioChunk (double_of 5) (js_str ''AAA='') active_service)))
       = [LiveConnect, ConsoleLog ''Live Session Connected'', SourceStart 0 (double_of 5), SourceStop 0]
   \<and> nextStartTime (stopAudioPlayback (snd (playAudioChunk (double_of 5) (js_str ''AAA='') active_service))) = 0
   \<and> nextStartTime (stopAudioPlayback (snd (playAudioChunk (double_of 5) (js_str ''AAA='') active_service)))
       \<le> double_of 5"
  using C3_interrupt_resets[OF five_nonneg(1), of "snd (playAudioChunk (double_of 5) (js_str ''AAA='') active_service)"]
  by (simp add: play_AAA five_nonneg)

lemma five_pos: "(0 :: double) < double_of 5"
  by transfer (simp add: double_values)

text \<open>
  Claim C3 as stated fails: a message that interrupts at clock \<open>5\<close> leaves
  \<open>nextStartTime\<close> at \<open>0\<close>, not at \<open>5\<close>.
\<close>

theorem C3_counterexample:
  "nextStartTime (snd (onmessage (double_of 5) \<lparr> inlineData = Some (js_str ''AAA=''), interrupted = True \<rparr> active_service)) = 0
   \<and> nextStartTime (snd (onmessage (double_of 5) \<lparr> inlineData = Some (js_str ''AAA=''), interrupted = True \<rparr> active_service)) \<noteq> double_of 5"
proof -
  have "js_str ''AAA='' \<noteq> []" by (simp add: js_str_def)
  then show ?thesis using five_pos by (simp add: onmessage_def play_AAA stopAudioPlayback_simps)
qed

text \<open>
  Claim C4, as amended. \<open>nextStartTime\<close> does not decrease across a scheduling call,
  whether the chunk decodes or not, nor across any sequence of scheduling calls; an
  interruption and \<open>cleanup\<close>, which runs the same \<open>stopAudioPlayback\<close>, both reset it
  to \<open>0\<close>.
\<close>

theorem C4_nextStartTime_monotone:
  "(list_all is_schedule ops \<longrightarrow> nextStartTime s \<le> nextStartTime (fold scheduler_step ops s))
   \<and> nextStartTime s \<le> nextStartTime (scheduler_step (Schedule currentTime base64) s)
   \<and> nextStartTime (scheduler_step Interrupt s) = 0
   \<and> nextStartTime (scheduler_step Cleanup s) = 0"
  by (simp add: schedule_run_mono playAudioChunk_nextStartTime stopAudioPlayback_simps
      cleanup_nextStartTime)

text \<open>The theorem of C4 on two scheduling calls, the second with a text that does not decode.\<close>

theorem C4_witness:
  "list_all is_schedule [Schedule (double_of 5) (js_str ''AAA=''), Schedule (double_of 5) (js_str ''A'')]
   \<and> nextStartTime active_service
       \<le> nextStartTime (fold scheduler_step [Schedule (double_of 5) (js_str ''AAA=''), Schedule (double_of 5) (js_str ''A'')] active_service)"
  using C4_nextStartTime_monotone[of "[Schedule (double_of 5) (js_str ''AAA=''), Schedule (double_of 5) (js_str ''A'')]" active_service]
  by simp

text \<open>
  Claim C4 as stated fails: after one item scheduled at clock \<open>5\<close>, \<open>cleanup\<close> takes
  \<open>nextStartTime\<close> from \<open>5 + 1/24000\<close> (as doubles, a positive value) down to \<open>0\<close>,
  and no interruption occurred.
\<close>

theorem C4_counterexample:
  "nextStartTime (fold scheduler_step [Schedule (double_of 5) (js_str ''AAA='')] active_service)
     = double_of 5 + double_of (1 / 24000)
   \<and> 0 < double_of 5 + double_of (1 / 24000)
   \<and> nextStartTime (fold scheduler_step [Schedule (double_of 5) (js_str ''AAA=''), Cleanup] active_service) = 0"
proof -
  have "double_of 5 \<le> double_of 5 + double_of (1 / 24000)"
    by (rule double_add_ge) (simp add: double_of_nonneg)
  with five_pos have "0 < double_of 5 + double_of (1 / 24000)" by (rule less_le_trans)
  then show ?thesis by (simp add: play_AAA cleanup_nextStartTime)
qed

section \<open>Teardown and failures of \<open>connect\<close>\<close>

lemma cleanup_trace:
  "trace (cleanup s) =
     trace s @ [CleanupCalled]
       @ map (\<lambda>source. SourceStop (node source)) (sources s)
       @ (case processor s of None \<Rightarrow> [] | Some p \<Rightarrow> [ProcessorDisconnect])
       @ (case sourceNode s of None \<Rightarrow> [] | Some n \<Rightarrow> [SourceNodeDisconnect])
       @ (case stream s of None \<Rightarrow> [] | Some tracks \<Rightarrow> map TrackStop tracks)
       @ (case inputAudioContext s of None \<Rightarrow> [] | Some ctx \<Rightarrow> [ContextClose ctx])
       @ (case outputAudioContext s of None \<Rightarrow> [] | Some ctx \<Rightarrow> [ContextClose ctx])"
  by (simp add: cleanup_def Let_def stopAudioPlayback_def emit_def split: option.splits)

lemma cleanup_fields:
  "session (cleanup s) = None" "inputAudioContext (cleanup s) = None"
  "outputAudioContext (cleanup s) = None" "sources (cleanup s) = []"
  "stream (cleanup s) = None" "processor (cleanup s) = None" "sourceNode (cleanup s) = None"
  "nextStartTime (cleanup s) = 0"
  "sessionPromise (cleanup s) = sessionPromise s" "allocated (cleanup s) = allocated s"
  by (simp_all add: cleanup_def Let_def stopAudioPlayback_def emit_def split: option.splits)

lemma cleanup_released:
  assumes "session s = None" "inputAudioContext s = None" "outputAudioContext s = None"
    "sources s = []" "stream s = None" "processor s = None" "sourceNode s = None"
    "nextStartTime s = 0"
  shows "cleanup s = emit [CleanupCalled] s" "disconnect s = emit [CleanupCalled] s"
  using assms by (simp_all add: disconnect_def cleanup_def Let_def stopAudioPlayback_def emit_def)

lemma teardown_again:
  assumes "session s = None" "inputAudioContext s = None" "outputAudioContext s = None"
    "sources s = []" "stream s = None" "processor s = None" "sourceNode s = None"
    "nextStartTime s = 0"
  shows "fold teardown_step calls s = emit (replicate (length calls) CleanupCalled) s"
  using assms
proof (induction calls arbitrary: s)
  case Nil
  then show ?case by (simp add: emit_def)
next
  case (Cons c calls)
  have step: "teardown_step c s = emit [CleanupCalled] s"
    using cleanup_released[OF Cons.prems] by (cases c) simp_all
  have "fold teardown_step calls (emit [CleanupCalled] s)
          = emit (replicate (length calls) CleanupCalled) (emit [CleanupCalled] s)"
    using Cons.prems by (intro Cons.IH) (simp_all add: emit_def)
  then show ?case
    by (simp add: step emit_def replicate_append_same)
qed

lemma teardown_after_cleanup:
  "fold teardown_step calls (cleanup s) = emit (replicate (length calls) CleanupCalled) (cleanup s)"
  by (rule teardown_again) (simp_all add: cleanup_fields)


lemma disconnect_trace:
  "trace (disconnect s) =
     trace s @ (case session s of None \<Rightarrow> [] | Some h \<Rightarrow> [SessionClose h]) @ [CleanupCalled]
       @ map (\<lambda>source. SourceStop (node source)) (sources s)
       @ (case processor s of None \<Rightarrow> [] | Some p \<Rightarrow> [ProcessorDisconnect])
       @ (case sourceNode s of None \<Rightarrow> [] | Some n \<Rightarrow> [SourceNodeDisconnect])
       @ (case stream s of None \<Rightarrow> [] | Some tracks \<Rightarrow> map TrackStop tracks)
       @ (case inputAudioContext s of None \<Rightarrow> [] | Some ctx \<Rightarrow> [ContextClose ctx])
       @ (case outputAudioContext s of None \<Rightarrow> [] | Some ctx \<Rightarrow> [ContextClose ctx])"
  by (cases "session s") (simp_all add: disconnect_def cleanup_trace emit_def)

lemma teardown_after_disconnect:
  "fold teardown_step calls (disconnect s)
     = emit (replicate (length calls) CleanupCalled) (disconnect s)"
  unfolding disconnect_def by (rule teardown_after_cleanup)

text \<open>
  Claim C5, as amended. Teardown is entered by \<open>disconnect\<close> or by \<open>cleanup\<close> and may
  be followed by any number of further calls of either. The first call stops every active
  source, disconnects the two capture nodes, stops every track of the microphone stream
  and closes the two audio contexts, each once and only if it is held, and leaves every
  field empty; every later call adds nothing but the record of its own entry. The
  connection handle is closed once when the first call is \<open>disconnect\<close> and a session is
  held; \<open>cleanup\<close> entered directly drops the handle without closing it.
\<close>

theorem C5_teardown_releases_once:
  "trace (fold teardown_step calls (disconnect s)) =
     trace s @ (case session s of None \<Rightarrow> [] | Some h \<Rightarrow> [SessionClose h]) @ [CleanupCalled]
       @ map (\<lambda>source. SourceStop (node source)) (sources s)
       @ (case processor s of None \<Rightarrow> [] | Some p \<Rightarrow> [ProcessorDisconnect])
       @ (case sourceNode s of None \<Rightarrow> [] | Some n \<Rightarrow> [SourceNodeDisconnect])
       @ (case stream s of None \<Rightarrow> [] | Some tracks \<Rightarrow> map TrackStop tracks)
       @ (case inputAudioContext s of None \<Rightarrow> [] | Some ctx \<Rightarrow> [ContextClose ctx])
       @ (case outputAudioContext s of None \<Rightarrow> [] | Some ctx \<Rightarrow> [ContextClose ctx])
       @ replicate (length calls) CleanupCalled
   \<and> trace (fold teardown_step calls (cleanup s)) =
     trace s @ [CleanupCalled]
       @ map (\<lambda>source. SourceStop (node source)) (sources s)
       @ (case processor s of None \<Rightarrow> [] | Some p \<Rightarrow> [ProcessorDisconnect])
       @ (case sourceNode s of None \<Rightarrow> [] | Some n \<Rightarrow> [SourceNodeDisconnect])
       @ (case stream s of None \<Rightarrow> [] | Some tracks \<Rightarrow> map TrackStop tracks)
       @ (case inputAudioContext s of None \<Rightarrow> [] | Some ctx \<Rightarrow> [ContextClose ctx])
       @ (case outputAudioContext s of None \<Rightarrow> [] | Some ctx \<Rightarrow> [ContextClose ctx])
       @ replicate (length calls) CleanupCalled
   \<and> session (fold teardown_step calls (cleanup s)) = None
   \<and> stream (fold teardown_step calls (cleanup s)) = None
   \<and> sources (fold teardown_step calls (cleanup s)) = []
   \<and> processor (fold teardown_step calls (cleanup s)) = None
   \<and> sourceNode (fold teardown_step calls (cleanup s)) = None
   \<and> inputAudioContext (fold teardown_step calls (cleanup s)) = None
   \<and> outputAudioContext (fold teardown_step calls (cleanup s)) = None"
  by (simp add: teardown_after_disconnect teardown_after_cleanup emit_def disconnect_trace
      cleanup_trace cleanup_fields)

text \<open>The theorem of C5 on a call in progress: a hangup, then two more teardown calls.\<close>

theorem C5_witness:
  "trace (fold teardown_step [CallCleanup, CallDisconnect] (disconnect active_service))
     = [LiveConnect, ConsoleLog ''Live Session Connected'',
        SessionClose 1, CleanupCalled, ProcessorDisconnect, SourceNodeDisconnect, TrackStop 0,
        ContextClose (AudioContext 16000), ContextClose (AudioContext 24000),
        CleanupCalled, CleanupCalled]"
  using C5_teardown_releases_once[of "[CallCleanup, CallDisconnect]" active_service]
  by (simp add: active_service_fields)

text \<open>
  Claim C5 as stated fails when teardown is first entered through \<open>cleanup\<close>, as the
  callbacks of the connection do: on a call in progress the session is held, \<open>cleanup\<close>
  followed by \<open>disconnect\<close> releases everything else once, and the handle is never
  closed.
\<close>

theorem C5_counterexample:
  "session active_service = Some 1
   \<and> trace (fold teardown_step [CallCleanup, CallDisconnect] active_service)
       = [LiveConnect, ConsoleLog ''Live Session Connected'',
          CleanupCalled, ProcessorDisconnect, SourceNodeDisconnect, TrackStop 0,
          ContextClose (AudioContext 16000), ContextClose (AudioContext 24000),
          CleanupCalled]"
  using teardown_after_cleanup[of "[CallDisconnect]" active_service]
  by (simp add: emit_def cleanup_trace active_service_fields)

text \<open>
  Claim C6. On a new service, when the environment has no capture interface, and when
  it has one but the microphone is refused, \<open>connect\<close> ends in a state that differs from
  the new service by its trace only, so nothing stays open: the error callback has been
  called once with the message of the failure, \<open>cleanup\<close> has been entered once, no
  connection to the server has been attempted, and the two audio contexts opened before
  the microphone was asked for have been closed.
\<close>

theorem C6_capture_failure_short_circuits:
  "(\<not> mediaDevices env \<longrightarrow>
      connect env new_LiveService =
        new_LiveService\<lparr>trace :=
          [ConsoleError ''Failed to connect live session'',
           OnError ''Microphone access is not supported in this environment (HTTP or no hardware).'',
           CleanupCalled]\<rparr>)
   \<and> (mediaDevices env \<and> getUserMedia env = None \<longrightarrow>
      connect env new_LiveService =
        new_LiveService\<lparr>trace :=
          [ConsoleError ''getUserMedia error:'',
           ConsoleError ''Failed to connect live session'',
           OnError ''Could not access microphone. Please check permissions and ensure a microphone is connected.'',
           CleanupCalled,
           ContextClose (AudioContext 16000), ContextClose (AudioContext 24000)]\<rparr>)"
  by (simp add: connect_def connect_catch_def cleanup_def Let_def stopAudioPlayback_def emit_def
      new_LiveService_def)

text \<open>The theorem of C6 in an environment of each kind.\<close>

theorem C6_witness:
  "connect \<lparr> mediaDevices = False, getUserMedia = Some [0], liveConnect = Inr 1 \<rparr> new_LiveService =
        new_LiveService\<lparr>trace :=
          [ConsoleError ''Failed to connect live session'',
           OnError ''Microphone access is not supported in this environment (HTTP or no hardware).'',
           CleanupCalled]\<rparr>
   \<and> connect \<lparr> mediaDevices = True, getUserMedia = None, liveConnect = Inr 1 \<rparr> new_LiveService =
        new_LiveService\<lparr>trace :=
          [ConsoleError ''getUserMedia error:'',
           ConsoleError ''Failed to connect live session'',
           OnError ''Could not access microphone. Please check permissions and ensure a microphone is connected.'',
           CleanupCalled,
           ContextClose (AudioContext 16000), ContextClose (AudioContext 24000)]\<rparr>"
  using C6_capture_failure_short_circuits[of "\<lparr> mediaDevices = False, getUserMedia = Some [0], liveConnect = Inr 1 \<rparr>"]
        C6_capture_failure_short_circuits[of "\<lparr> mediaDevices = True, getUserMedia = None, liveConnect = Inr 1 \<rparr>"]
  by simp

section \<open>Inbound chunks that do not decode, outbound frames that wait\<close>

lemma Int16Array_odd: "odd (length bytes) \<Longrightarrow> Int16Array_of_buffer bytes = Inl RangeError"
  by (induction bytes rule: Int16Array_of_buffer.induct) simp_all

lemma playAudioChunk_decode_failure:
  assumes "outputAudioContext s = Some ctx"
    and "decode base64 = Inl e
         \<or> (\<exists>bytes. decode base64 = Inr bytes \<and> decodeAudioData bytes ctx 24000 1 = Inl e)"
  shows "playAudioChunk currentTime base64 s
           = (Throw e, s\<lparr>nextStartTime := max (nextStartTime s) currentTime\<rparr>)"
  using assms by (auto simp: playAudioChunk_def)

text \<open>
  Claim C8, as amended. When the audio text of a message does not decode (invalid
  base64, or bytes that make no buffer, as an odd number of bytes does), \<open>onmessage\<close>
  throws the error of the decoder: the handler catches and logs nothing. Nothing is
  scheduled, no teardown runs and no error callback is called, so every resource stays
  held and the call goes on; \<open>nextStartTime\<close> has already been raised to the output
  clock, and the interruption flag of the same message is not acted on.
\<close>

theorem C8_malformed_chunk:
  assumes "outputAudioContext s = Some ctx" and "base64Audio \<noteq> []"
    and "decode base64Audio = Inl e
         \<or> (\<exists>bytes. decode base64Audio = Inr bytes \<and> decodeAudioData bytes ctx 24000 1 = Inl e)"
  shows "onmessage currentTime \<lparr> inlineData = Some base64Audio, interrupted = flag \<rparr> s
           = (Throw e, s\<lparr>nextStartTime := max (nextStartTime s) currentTime\<rparr>)
       \<and> (odd (length data_in) \<longrightarrow> decodeAudioData data_in ctx rate numChannels = Inl RangeError)"
  using assms(2) playAudioChunk_decode_failure[OF assms(1,3)]
  by (simp add: onmessage_def decodeAudioData_def Int16Array_odd)

lemma decode_AA: "decode (js_str ''AA=='') = Inr [0]"
  by (simp add: decode_def atob_def js_str_def ascii_whitespace_def strip_padding_def dec6_def)

lemma decodeAudioData_0: "decodeAudioData [0] ctx 24000 1 = Inl RangeError"
  by (simp add: decodeAudioData_def)

lemma AA_nonempty: "js_str ''AA=='' \<noteq> []"
  by (simp add: js_str_def)

text \<open>The theorem of C8 for a text of one byte, on a call in progress at clock \<open>6\<close>.\<close>

theorem C8_witness:
  "onmessage (double_of 6) \<lparr> inlineData = Some (js_str ''AA==''), interrupted = False \<rparr> active_service
     = (Throw RangeError, active_service\<lparr>nextStartTime := double_of 6\<rparr>)
   \<and> decodeAudioData [0] (AudioContext 24000) 24000 1 = Inl RangeError"
proof -
  have "decode (js_str ''AA=='') = Inl RangeError
         \<or> (\<exists>bytes. decode (js_str ''AA=='') = Inr bytes \<and> decodeAudioData bytes (AudioContext 24000) 24000 1 = Inl RangeError)"
    using decode_AA decodeAudioData_0 by simp
  from C8_malformed_chunk[OF active_service_fields(1) AA_nonempty this, of "double_of 6" False "[0]" 24000 1]
  show ?thesis by (simp add: active_service_fields max_absorb2 double_of_nonneg)
qed

text \<open>
  Claim C8 as stated fails: with one item playing, a message with a text of one byte and
  the interruption flag makes the handler throw \<^verbatim>\<open>RangeError\<close>, the trace is unchanged
  (nothing is logged) and the item is still in the active set (the interruption is lost).
\<close>

theorem C8_counterexample:
  "fst (onmessage (double_of 6) \<lparr> inlineData = Some (js_str ''AA==''), interrupted = True \<rparr>
          (snd (playAudioChunk (double_of 5) (js_str ''AAA='') active_service))) = Throw RangeError
   \<and> trace (snd (onmessage (double_of 6) \<lparr> inlineData = Some (js_str ''AA==''), interrupted = True \<rparr>
          (snd (playAudioChunk (double_of 5) (js_str ''AAA='') active_service))))
       = trace (snd (playAudioChunk (double_of 5) (js_str ''AAA='') active_service))
   \<and> map startTime (sources (snd (onmessage (double_of 6) \<lparr> inlineData = Some (js_str ''AA==''), interrupted = True \<rparr>
          (snd (playAudioChunk (double_of 5) (js_str ''AAA='') active_service))))) = [double_of 5]"
proof -
  let ?s = "snd (playAudioChunk (double_of 5) (js_str ''AAA='') active_service)"
  have ctx: "outputAudioContext ?s = Some (AudioContext 24000)"
    by (simp add: play_AAA active_service_fields)
  have "decode (js_str ''AA=='') = Inl RangeError
         \<or> (\<exists>bytes. decode (js_str ''AA=='') = Inr bytes \<and> decodeAudioData bytes (AudioContext 24000) 24000 1 = Inl RangeError)"
    using decode_AA decodeAudioData_0 by simp
  from playAudioChunk_decode_failure[OF ctx this, of "double_of 6"]
  have "onmessage (double_of 6) \<lparr> inlineData = Some (js_str ''AA==''), interrupted = True \<rparr> ?s
          = (Throw RangeError, ?s\<lparr>nextStartTime := max (nextStartTime ?s) (double_of 6)\<rparr>)"
    using AA_nonempty by (simp add: onmessage_def)
  then show ?thesis by (simp add: play_AAA)
qed


lemma onaudioprocess_pending:
  assumes "sessionPromise s = Some (Pending waiting)"
  shows "\<exists>blob. createBlob inputData = Inr blob
           \<and> onaudioprocess inputData s = (Normal, s\<lparr>sessionPromise := Some (Pending (waiting @ [blob]))\<rparr>)"
  using assms by (simp add: onaudioprocess_def createBlob_text then_send_def)

lemma capture_pending:
  assumes "sessionPromise s = Some (Pending waiting)"
  shows "\<exists>blobs. map createBlob frames_in = map Inr blobs
           \<and> capture frames_in s = s\<lparr>sessionPromise := Some (Pending (waiting @ blobs))\<rparr>"
  using assms
proof (induction frames_in arbitrary: s waiting)
  case Nil
  then show ?case by (simp add: capture_def)
next
  case (Cons f fs)
  from onaudioprocess_pending[OF Cons.prems, of f] obtain blob where
    b: "createBlob f = Inr blob"
       "onaudioprocess f s = (Normal, s\<lparr>sessionPromise := Some (Pending (waiting @ [blob]))\<rparr>)"
    by blast
  let ?s1 = "s\<lparr>sessionPromise := Some (Pending (waiting @ [blob]))\<rparr>"
  have "sessionPromise ?s1 = Some (Pending (waiting @ [blob]))" by simp
  from Cons.IH[OF this] obtain blobs where
    bs: "map createBlob fs = map Inr blobs"
        "capture fs ?s1 = ?s1\<lparr>sessionPromise := Some (Pending ((waiting @ [blob]) @ blobs))\<rparr>"
    by blast
  have "map createBlob (f # fs) = map Inr (blob # blobs)" using b(1) bs(1) by simp
  moreover have "capture (f # fs) s = s\<lparr>sessionPromise := Some (Pending (waiting @ blob # blobs))\<rparr>"
    using bs(2) by (simp add: capture_def b(2))
  ultimately show ?case by blast
qed

text \<open>
  Claim C9, as amended. While the session promise is pending, every captured frame is
  encoded and appended to the callbacks waiting on the promise; the handler returns
  normally each time, nothing is sent and nothing is dropped, however many frames there
  are. When the promise is fulfilled all the waiting frames are sent, in capture order.
\<close>

theorem C9_frames_wait_unbounded:
  assumes "sessionPromise s = Some (Pending waiting)"
  shows "\<exists>blobs. map createBlob frames_in = map Inr blobs
           \<and> capture frames_in s = s\<lparr>sessionPromise := Some (Pending (waiting @ blobs))\<rparr>
           \<and> trace (sessionPromise_settled (Inr h) (capture frames_in s))
               = trace s @ map (SendRealtimeInput h) (waiting @ blobs)
           \<and> fst (onaudioprocess inputData (capture frames_in s)) = Normal"
proof -
  from capture_pending[OF assms, of frames_in] obtain blobs where
    b: "map createBlob frames_in = map Inr blobs"
       "capture frames_in s = s\<lparr>sessionPromise := Some (Pending (waiting @ blobs))\<rparr>"
    by blast
  have "trace (sessionPromise_settled (Inr h) (capture frames_in s))
               = trace s @ map (SendRealtimeInput h) (waiting @ blobs)"
    by (simp add: b(2) sessionPromise_settled_def emit_def)
  moreover have "fst (onaudioprocess inputData (capture frames_in s)) = Normal"
    by (simp add: onaudioprocess_def createBlob_text)
  ultimately show ?thesis using b by blast
qed

lemma connect_granting:
  "connect granting new_LiveService =
     new_LiveService\<lparr>inputAudioContext := Some (AudioContext 16000),
                     outputAudioContext := Some (AudioContext 24000),
                     stream := Some [0], sessionPromise := Some (Pending []),
                     trace := [LiveConnect]\<rparr>"
  by (simp add: connect_def granting_def new_LiveService_def emit_def)

lemma opened_pending:
  "sessionPromise (onopen (connect granting new_LiveService)) = Some (Pending [])"
  "processor (onopen (connect granting new_LiveService)) = Some 4096"
  "trace (onopen (connect granting new_LiveService))
     = [LiveConnect, ConsoleLog ''Live Session Connected'']"
  by (simp_all add: connect_granting onopen_def startAudioInput_def emit_def)

text \<open>
  The theorem of C9 for three frames captured after the connection has opened and
  before the session promise is fulfilled.
\<close>

theorem C9_witness:
  "\<exists>blobs. map createBlob [[0], [1 / 2], [- 1]] = map Inr blobs
     \<and> capture [[0], [1 / 2], [- 1]] (onopen (connect granting new_LiveService))
         = (onopen (connect granting new_LiveService))\<lparr>sessionPromise := Some (Pending blobs)\<rparr>
     \<and> trace (sessionPromise_settled (Inr 1)
                (capture [[0], [1 / 2], [- 1]] (onopen (connect granting new_LiveService))))
         = trace (onopen (connect granting new_LiveService)) @ map (SendRealtimeInput 1) blobs
     \<and> fst (onaudioprocess [0]
              (capture [[0], [1 / 2], [- 1]] (onopen (connect granting new_LiveService)))) = Normal"
  by (rule C9_frames_wait_unbounded[OF opened_pending(1), of "[[0], [1 / 2], [- 1]]" 1 "[0]",
        unfolded append_Nil])

text \<open>
  Claim C9 as stated fails: no bound holds on the number of frames that wait, so no
  frame is ever dropped for overflow.
\<close>

theorem C9_counterexample:
  "\<not> (\<exists>N. \<forall>frames_in.
         (case sessionPromise (capture frames_in (onopen (connect granting new_LiveService))) of
            Some (Pending waiting) \<Rightarrow> length waiting \<le> N
          | _ \<Rightarrow> True))"
proof
  assume "\<exists>N. \<forall>frames_in.
         (case sessionPromise (capture frames_in (onopen (connect granting new_LiveService))) of
            Some (Pending waiting) \<Rightarrow> length waiting \<le> N
          | _ \<Rightarrow> True)"
  then obtain N where
    N: "\<And>frames_in.
          (case sessionPromise (capture frames_in (onopen (connect granting new_LiveService))) of
            Some (Pending waiting) \<Rightarrow> length waiting \<le> N
          | _ \<Rightarrow> True)"
    by blast
  from capture_pending[OF opened_pending(1), of "replicate (Suc N) [0]"] obtain blobs where
    b: "map createBlob (replicate (Suc N) [0]) = map Inr blobs"
       "capture (replicate (Suc N) [0]) (onopen (connect granting new_LiveService))
          = (onopen (connect granting new_LiveService))\<lparr>sessionPromise := Some (Pending ([] @ blobs))\<rparr>"
    by blast
  from b(1) have "length blobs = Suc N" by (metis length_map length_replicate)
  moreover from N[of "replicate (Suc N) [0]", unfolded b(2)] have "length blobs \<le> N" by simp
  ultimately show False by simp
qed

section \<open>A second start\<close>

lemma connect_granted:
  assumes "mediaDevices env" and "getUserMedia env = Some tracks"
  shows "connect env s =
           emit [LiveConnect]
             (s\<lparr>inputAudioContext := Some (AudioContext 16000),
                outputAudioContext := Some (AudioContext 24000),
                stream := Some tracks, sessionPromise := Some (Pending [])\<rparr>)"
  using assms by (simp add: connect_def)

lemma handleVoiceStart_proceeds:
  assumes "activeSessionId app = Some sid" and "sid \<noteq> []"
    and "find (\<lambda>c. session_id c = sid) (sessions app) = Some chat"
    and "USERS (contactId chat) = Some contact" and "isBot contact"
    and "mediaDevices env" and "getUserMedia env = Some tracks" and "liveConnect env = Inr h"
  shows "handleVoiceStart env app =
           (Normal,
            app\<lparr>isVoiceActive := True,
                voiceStatus := (if voiceStatus app = error then connecting else connected),
                voiceErrorMsg := [],
                liveServiceRef :=
                  Some (new_LiveService
                          \<lparr>session := Some h,
                           inputAudioContext := Some (AudioContext 16000),
                           outputAudioContext := Some (AudioContext 24000),
                           stream := Some tracks,
                           sessionPromise := Some (Fulfilled h),
                           trace := [LiveConnect]\<rparr>)\<rparr>)"
proof -
  have c: "connect env new_LiveService =
             new_LiveService\<lparr>inputAudioContext := Some (AudioContext 16000),
                outputAudioContext := Some (AudioContext 24000),
                stream := Some tracks, sessionPromise := Some (Pending []),
                trace := [LiveConnect]\<rparr>"
    using connect_granted[OF assms(6,7), of new_LiveService]
    by (simp add: emit_def new_LiveService_def)
  have st: "sessionPromise_settled (Inr h) (connect env new_LiveService) =
             new_LiveService\<lparr>session := Some h,
                inputAudioContext := Some (AudioContext 16000),
                outputAudioContext := Some (AudioContext 24000),
                stream := Some tracks, sessionPromise := Some (Fulfilled h),
                trace := [LiveConnect]\<rparr>"
    unfolding c by (simp add: sessionPromise_settled_def emit_def new_LiveService_def)
  have p: "sessionPromise (connect env new_LiveService) = Some (Pending [])"
    unfolding c by simp
  show ?thesis
    unfolding handleVoiceStart_def Let_def
    using assms(1-5,8) by (simp add: p st)
qed

text \<open>
  Claim C7, as amended. Neither \<open>handleVoiceStart\<close> nor \<open>connect\<close> tests whether a call
  is in progress. When the selected chat is with the bot and the environment grants the
  microphone and the connection, \<open>handleVoiceStart\<close> returns normally whatever
  \<open>isVoiceActive\<close> and \<open>liveServiceRef\<close> were: it creates a new service, connects it and
  stores it in \<open>liveServiceRef\<close> in place of the earlier one, which is not torn down.
  \<open>connect\<close> on a service in any state opens new audio contexts and a new stream and
  attempts a new connection.
\<close>

theorem C7_second_start_not_rejected:
  assumes "activeSessionId app = Some sid" and "sid \<noteq> []"
    and "find (\<lambda>c. session_id c = sid) (sessions app) = Some chat"
    and "USERS (contactId chat) = Some contact" and "isBot contact"
    and "mediaDevices env" and "getUserMedia env = Some tracks" and "liveConnect env = Inr h"
  shows "handleVoiceStart env app =
           (Normal,
            app\<lparr>isVoiceActive := True,
                voiceStatus := (if voiceStatus app = error then connecting else connected),
                voiceErrorMsg := [],
                liveServiceRef :=
                  Some (new_LiveService
                          \<lparr>session := Some h,
                           inputAudioContext := Some (AudioContext 16000),
                           outputAudioContext := Some (AudioContext 24000),
                           stream := Some tracks,
                           sessionPromise := Some (Fulfilled h),
                           trace := [LiveConnect]\<rparr>)\<rparr>)
       \<and> connect env s =
           emit [LiveConnect]
             (s\<lparr>inputAudioContext := Some (AudioContext 16000),
                outputAudioContext := Some (AudioContext 24000),
                stream := Some tracks, sessionPromise := Some (Pending [])\<rparr>)"
  using handleVoiceStart_proceeds[OF assms] connect_granted[OF assms(6,7)] by simp

lemma busy_guards:
  "find (\<lambda>c. session_id c = ''s1'') [\<lparr> session_id = ''s1'', contactId = ''gemini'' \<rparr>]
     = Some \<lparr> session_id = ''s1'', contactId = ''gemini'' \<rparr>"
  "USERS (contactId \<lparr> session_id = ''s1'', contactId = ''gemini'' \<rparr>)
     = Some \<lparr> user_id = ''gemini'', user_name = ''Gemini AI'',
               avatar = ''https://upload.wikimedia.org/wikipedia/commons/8/8a/Google_Gemini_logo.svg'',
               isBot = True \<rparr>"
  by (simp_all add: USERS_def)

text \<open>The theorem of C7 when a call is already connected.\<close>

theorem C7_witness:
  "handleVoiceStart granting
     \<lparr> sessions = [\<lparr> session_id = ''s1'', contactId = ''gemini'' \<rparr>],
       activeSessionId = Some ''s1'', isVoiceActive = True, voiceStatus = connected,
       voiceErrorMsg = [], liveServiceRef = Some active_service, alerts = [], console = [] \<rparr>
   = (Normal,
      \<lparr> sessions = [\<lparr> session_id = ''s1'', contactId = ''gemini'' \<rparr>],
        activeSessionId = Some ''s1'', isVoiceActive = True, voiceStatus = connected,
        voiceErrorMsg = [],
        liveServiceRef =
          Some (new_LiveService
                  \<lparr>session := Some 1,
                   inputAudioContext := Some (AudioContext 16000),
                   outputAudioContext := Some (AudioContext 24000),
                   stream := Some [0],
                   sessionPromise := Some (Fulfilled 1),
                   trace := [LiveConnect]\<rparr>),
        alerts = [], console = [] \<rparr>)
   \<and> trace (connect granting active_service)
       = [LiveConnect, ConsoleLog ''Live Session Connected'', LiveConnect]"
proof -
  let ?app = "\<lparr> sessions = [\<lparr> session_id = ''s1'', contactId = ''gemini'' \<rparr>],
       activeSessionId = Some ''s1'', isVoiceActive = True, voiceStatus = connected,
       voiceErrorMsg = [], liveServiceRef = Some active_service, alerts = [], console = [] \<rparr>"
  have g: "activeSessionId ?app = Some ''s1''" "''s1'' \<noteq> []"
    "find (\<lambda>c. session_id c = ''s1'') (sessions ?app) = Some \<lparr> session_id = ''s1'', contactId = ''gemini'' \<rparr>"
    using busy_guards(1) by simp_all
  have b: "isBot \<lparr> user_id = ''gemini'', user_name = ''Gemini AI'',
               avatar = ''https://upload.wikimedia.org/wikipedia/commons/8/8a/Google_Gemini_logo.svg'',
               isBot = True \<rparr>" by simp
  have e: "mediaDevices granting" "getUserMedia granting = Some [0]" "liveConnect granting = Inr 1"
    by (simp_all add: granting_def)
  from C7_second_start_not_rejected[OF g busy_guards(2) b e, of active_service]
  show ?thesis by (simp add: emit_def active_service_fields)
qed

text \<open>
  Claim C7 as stated fails: with a call connected, a second \<open>handleVoiceStart\<close> returns
  normally with the status \<open>connected\<close>, no error message and a new service that has
  attempted its own connection; \<open>connect\<close> on the service of the running call attempts a
  second connection as well.
\<close>

theorem C7_counterexample:
  "fst (handleVoiceStart granting
     \<lparr> sessions = [\<lparr> session_id = ''s1'', contactId = ''gemini'' \<rparr>],
       activeSessionId = Some ''s1'', isVoiceActive = True, voiceStatus = connected,
       voiceErrorMsg = [], liveServiceRef = Some active_service, alerts = [], console = [] \<rparr>)
     = Normal
   \<and> voiceStatus (snd (handleVoiceStart granting
     \<lparr> sessions = [\<lparr> session_id = ''s1'', contactId = ''gemini'' \<rparr>],
       activeSessionId = Some ''s1'', isVoiceActive = True, voiceStatus = connected,
       voiceErrorMsg = [], liveServiceRef = Some active_service, alerts = [], console = [] \<rparr>))
     = connected
   \<and> voiceErrorMsg (snd (handleVoiceStart granting
     \<lparr> sessions = [\<lparr> session_id = ''s1'', contactId = ''gemini'' \<rparr>],
       activeSessionId = Some ''s1'', isVoiceActive = True, voiceStatus = connected,
       voiceErrorMsg = [], liveServiceRef = Some active_service, alerts = [], console = [] \<rparr>))
     = []
   \<and> map_option trace (liveServiceRef (snd (handleVoiceStart granting
     \<lparr> sessions = [\<lparr> session_id = ''s1'', contactId = ''gemini'' \<rparr>],
       activeSessionId = Some ''s1'', isVoiceActive = True, voiceStatus = connected,
       voiceErrorMsg = [], liveServiceRef = Some active_service, alerts = [], console = [] \<rparr>)))
     = Some [LiveConnect]
   \<and> trace (connect granting active_service)
       = [LiveConnect, ConsoleLog ''Live Session Connected'', LiveConnect]"
proof -
  let ?app = "\<lparr> sessions = [\<lparr> session_id = ''s1'', contactId = ''gemini'' \<rparr>],
       activeSessionId = Some ''s1'', isVoiceActive = True, voiceStatus = connected,
       voiceErrorMsg = [], liveServiceRef = Some active_service, alerts = [], console = [] \<rparr>"
  have g: "activeSessionId ?app = Some ''s1''" "''s1'' \<noteq> []"
    "find (\<lambda>c. session_id c = ''s1'') (sessions ?app) = Some \<lparr> session_id = ''s1'', contactId = ''gemini'' \<rparr>"
    using busy_guards(1) by simp_all
  have b: "isBot \<lparr> user_id = ''gemini'', user_name = ''Gemini AI'',
               avatar = ''https://upload.wikimedia.org/wikipedia/commons/8/8a/Google_Gemini_logo.svg'',
               isBot = True \<rparr>" by simp
  have e: "mediaDevices granting" "getUserMedia granting = Some [0]" "liveConnect granting = Inr 1"
    by (simp_all add: granting_def)
  show ?thesis
    using handleVoiceStart_proceeds[OF g busy_guards(2) b e]
          connect_granted[OF e(1,2), of active_service]
    by (simp add: emit_def active_service_fields)
qed

end
